theory Spec2Isabelle
  imports Complex_Main "HOL-Library.Sublist" "HOL-Library.Word"
begin

section \<open>Values thrown and classified errors (enhanced-error-handler.js)\<close>

text \<open>
  A JavaScript string is a sequence of UTF-16 code units; a message is a list of them. The
  names the code compares for equality only (API types, priorities, descriptions) are
  \<open>string\<close>s, and \<open>js\<close> turns a literal into a message.
\<close>

type_synonym js_string = "16 word list"

definition js :: "string \<Rightarrow> js_string" where
  "js s = map of_char s"

text \<open>
  JavaScript can throw or reject with any value. The code paths below look at four things
  of a thrown value: whether it is truthy, whether it carries \<open>isEnhanced\<close>, its
  \<open>message\<close> property, and its conversion to a string when it has no message. That
  conversion can throw in its turn (\<open>String(Object.create(null))\<close>, an object whose
  \<open>toString\<close> throws).
\<close>

datatype error_type = RATE_LIMIT | NETWORK_ERROR | TIMEOUT | VALIDATION | AI_UNAVAILABLE | UNKNOWN

record enhanced_error =
  message :: js_string
  etype :: error_type
  metadata :: "(string \<times> string) list"

datatype js_error =
    Nullish \<comment> \<open>\<open>undefined\<close> or \<open>null\<close>: reading a property of it throws a TypeError\<close>
  | Falsy \<comment> \<open>another falsy value: \<open>0\<close>, \<open>NaN\<close>, the empty string, \<open>false\<close>\<close>
  | Enhanced enhanced_error \<comment> \<open>an \<open>EnhancedError\<close> (\<open>isEnhanced\<close> is true)\<close>
  | Plain js_string js_string \<comment> \<open>another truthy value whose message converts to a
      string: its \<open>message\<close> property as a string (empty when absent or falsy) and
      \<open>String(v)\<close>\<close>
  | Unprintable js_error \<comment> \<open>another truthy value, for which \<open>String(v)\<close> or the
      conversion of its \<open>message\<close> to a string throws the given value, as for
      \<open>Object.create(null)\<close>\<close>

definition truthy :: "js_error \<Rightarrow> bool" where
  "truthy e = (case e of Nullish \<Rightarrow> False | Falsy \<Rightarrow> False | _ \<Rightarrow> True)"

text \<open>\<open>new EnhancedError(message, type)\<close>: the metadata defaults to \<open>{}\<close>.\<close>

definition EnhancedError :: "js_string \<Rightarrow> error_type \<Rightarrow> enhanced_error" where
  "EnhancedError m t = \<lparr>message = m, etype = t, metadata = []\<rparr>"

subsection \<open>The regular expressions of \<open>classify\<close>\<close>

text \<open>
  The five patterns use literals, alternation, concatenation and \<open>.*\<close>, all under the
  \<open>i\<close> flag. Every character of the patterns is ASCII. Under that flag (without \<open>u\<close>)
  an ASCII letter of a pattern matches exactly its two cases and every other ASCII character
  only itself; a code unit from 128 on matches none of them, since the flag never maps it
  below 128. \<open>.\<close> stops at the four line terminators.
\<close>

datatype regex = Lit js_string | Alt regex regex | Seq regex regex | AnyStar

definition canonicalize :: "16 word \<Rightarrow> 16 word" where
  "canonicalize c = (if 97 \<le> c \<and> c \<le> 122 then c - 32 else c)"

definition isLineTerminator :: "16 word \<Rightarrow> bool" where
  "isLineTerminator c = (c = 0x0A \<or> c = 0x0D \<or> c = 0x2028 \<or> c = 0x2029)"

fun lit_match :: "js_string \<Rightarrow> js_string \<Rightarrow> js_string option" where
  "lit_match [] s = Some s"
| "lit_match (p # ps) [] = None"
| "lit_match (p # ps) (c # cs) =
     (if canonicalize p = canonicalize c then lit_match ps cs else None)"

fun anystar :: "js_string \<Rightarrow> js_string list" where
  "anystar [] = [[]]"
| "anystar (c # cs) = (c # cs) # (if isLineTerminator c then [] else anystar cs)"

text \<open>\<open>rx_match r s\<close> lists what is left of \<open>s\<close> after each way \<open>r\<close> matches at its start.\<close>

fun rx_match :: "regex \<Rightarrow> js_string \<Rightarrow> js_string list" where
  "rx_match (Lit p) s = (case lit_match p s of None \<Rightarrow> [] | Some r \<Rightarrow> [r])"
| "rx_match (Alt a b) s = rx_match a s @ rx_match b s"
| "rx_match (Seq a b) s = concat (map (rx_match b) (rx_match a s))"
| "rx_match AnyStar s = anystar s"

text \<open>\<open>regex.test(message)\<close> without anchors: a match may start at any index.\<close>

fun rx_test :: "regex \<Rightarrow> js_string \<Rightarrow> bool" where
  "rx_test r [] = (rx_match r [] \<noteq> [])"
| "rx_test r (c # cs) = (rx_match r (c # cs) \<noteq> [] \<or> rx_test r cs)"

fun alternatives :: "js_string list \<Rightarrow> regex" where
  "alternatives [] = Lit []"
| "alternatives [p] = Lit p"
| "alternatives (p # ps) = Alt (Lit p) (alternatives ps)"

definition rateLimitWords :: "js_string list" where
  "rateLimitWords = map js [''rate limit'', ''too many requests'', ''429'']"

definition networkWords :: "js_string list" where
  "networkWords = map js [''network'', ''fetch failed'', ''failed to fetch'', ''net::ERR'']"

definition timeoutWords :: "js_string list" where
  "timeoutWords = map js [''timeout'', ''timed out'', ''took too long'']"

definition validationWords :: "js_string list" where
  "validationWords = map js [''invalid'', ''missing'', ''required'', ''malformed'']"

definition unavailableWords :: "js_string list" where
  "unavailableWords = map js [''unavailable'', ''disabled'', ''not available'']"

definition aiUnavailablePattern :: regex where
  "aiUnavailablePattern = Seq (Lit (js ''ai'')) (Seq AnyStar (alternatives unavailableWords))"

subsection \<open>\<open>classify\<close>, \<open>shouldRetry\<close>, \<open>backoffDelayMs\<close>\<close>

text \<open>\<open>(error && error.message) ? error.message : String(error)\<close>, for a truthy value.\<close>

definition raw_message :: "js_string \<Rightarrow> js_string \<Rightarrow> js_string" where
  "raw_message m str = (if m \<noteq> [] then m else str)"

text \<open>
  \<open>classify\<close> returns an \<open>EnhancedError\<close> (\<open>Inr\<close>), or throws (\<open>Inl\<close>) what the
  conversion of the value to a string throws.
\<close>

definition classify :: "js_error \<Rightarrow> js_error + enhanced_error" where
  "classify error =
     (if \<not> truthy error then Inr (EnhancedError (js ''Unknown error'') UNKNOWN)
      else case error of
        Enhanced x \<Rightarrow> Inr x
      | Plain m str \<Rightarrow>
         (let message = raw_message m str in
          if rx_test (alternatives rateLimitWords) message
            then Inr (EnhancedError message RATE_LIMIT)
          else if rx_test (alternatives networkWords) message
            then Inr (EnhancedError message NETWORK_ERROR)
          else if rx_test (alternatives timeoutWords) message
            then Inr (EnhancedError message TIMEOUT)
          else if rx_test (alternatives validationWords) message
            then Inr (EnhancedError message VALIDATION)
          else if rx_test aiUnavailablePattern message
            then Inr (EnhancedError message AI_UNAVAILABLE)
          else Inr (EnhancedError message UNKNOWN))
      | Unprintable thrown \<Rightarrow> Inl thrown
      | _ \<Rightarrow> Inr (EnhancedError (js ''Unknown error'') UNKNOWN))"

definition shouldRetry :: "enhanced_error \<Rightarrow> bool" where
  "shouldRetry enhancedError =
     (etype enhancedError = NETWORK_ERROR \<or> etype enhancedError = TIMEOUT
      \<or> etype enhancedError = RATE_LIMIT)"

text \<open>
  \<open>backoffDelayMs(enhancedError, attempt, baseMs)\<close>; \<open>jitter\<close> is the value of
  \<open>Math.floor(Math.random() * 150)\<close>, an integer from 0 to 149.
\<close>

definition backoffDelayMs :: "enhanced_error \<Rightarrow> nat \<Rightarrow> int \<Rightarrow> int \<Rightarrow> int" where
  "backoffDelayMs enhancedError attempt baseMs jitter =
     (if etype enhancedError = RATE_LIMIT then min 10000 (baseMs * 2 ^ attempt) + jitter
      else if etype enhancedError = NETWORK_ERROR \<or> etype enhancedError = TIMEOUT
        then min 5000 (baseMs * 2 ^ attempt) + jitter
      else 0)"

text \<open>
  The specification's reading of the classifier: a table of kinds in precedence order,
  each with its test, the first kind whose test passes, and \<open>UNKNOWN\<close> when none does.
  A word test is containment of the word as a contiguous substring, ignoring ASCII case.
  The test of the fifth kind is the pattern \<open>/ai.*(unavailable|disabled|not available)/i\<close>.
\<close>

definition contains_ci :: "js_string \<Rightarrow> js_string \<Rightarrow> bool" where
  "contains_ci word m = sublist (map canonicalize word) (map canonicalize m)"

definition any_word :: "js_string list \<Rightarrow> js_string \<Rightarrow> bool" where
  "any_word ws m = list_ex (\<lambda>w. contains_ci w m) ws"

definition precedence :: "(error_type \<times> (js_string \<Rightarrow> bool)) list" where
  "precedence =
     [(RATE_LIMIT, any_word rateLimitWords),
      (NETWORK_ERROR, any_word networkWords),
      (TIMEOUT, any_word timeoutWords),
      (VALIDATION, any_word validationWords),
      (AI_UNAVAILABLE, rx_test aiUnavailablePattern)]"

fun first_match :: "(error_type \<times> (js_string \<Rightarrow> bool)) list \<Rightarrow> js_string \<Rightarrow> error_type" where
  "first_match [] m = UNKNOWN"
| "first_match ((k, t) # rules) m = (if t m then k else first_match rules m)"


section \<open>Object literals read by name\<close>

text \<open>
  \<open>this.config[apiType]\<close> and \<open>this.priorityLevels[priority]\<close> read a property of an
  object literal by a name the caller chose. Such a read finds the literal's own keys and,
  through the prototype chain, the members of \<open>Object.prototype\<close>: functions, and for
  \<open>__proto__\<close> an object. All of these are truthy and none of them has the fields of a
  policy or is a number.
\<close>

definition objectPrototypeKeys :: "string list" where
  "objectPrototypeKeys =
     [''constructor'', ''hasOwnProperty'', ''isPrototypeOf'', ''propertyIsEnumerable'',
      ''toLocaleString'', ''toString'', ''valueOf'', ''__proto__'',
      ''__defineGetter__'', ''__defineSetter__'', ''__lookupGetter__'', ''__lookupSetter__'']"

datatype 'a property = Own 'a | Inherited | Undefined

definition get_property :: "(string \<rightharpoonup> 'a) \<Rightarrow> string \<Rightarrow> 'a property" where
  "get_property literal key =
     (case literal key of
        Some v \<Rightarrow> Own v
      | None \<Rightarrow> if key \<in> set objectPrototypeKeys then Inherited else Undefined)"

section \<open>Rate limiter\<close>

text \<open>
  The class \<open>RateLimiter\<close>. \<open>config\<close> is an object literal with six keys. Times are
  integers (milliseconds, as \<open>Date.now()\<close> returns them). A number that may be \<open>NaN\<close> is an
  \<open>int option\<close>, \<open>None\<close> standing for \<open>NaN\<close>.
\<close>

record policy =
  maxConcurrent :: int
  minInterval :: int
  maxPerMinute :: int

definition config :: "string \<rightharpoonup> policy" where
  "config =
     [''LanguageModel'' \<mapsto> \<lparr>maxConcurrent = 2, minInterval = 1000, maxPerMinute = 30\<rparr>,
      ''Summarizer'' \<mapsto> \<lparr>maxConcurrent = 2, minInterval = 1500, maxPerMinute = 20\<rparr>,
      ''Writer'' \<mapsto> \<lparr>maxConcurrent = 2, minInterval = 1000, maxPerMinute = 25\<rparr>,
      ''Rewriter'' \<mapsto> \<lparr>maxConcurrent = 1, minInterval = 2000, maxPerMinute = 15\<rparr>,
      ''Proofreader'' \<mapsto> \<lparr>maxConcurrent = 1, minInterval = 2000, maxPerMinute = 10\<rparr>,
      ''Translator'' \<mapsto> \<lparr>maxConcurrent = 2, minInterval = 1000, maxPerMinute = 20\<rparr>]"

text \<open>
  A queued entry \<open>{requestFunction, resolve, reject, timestamp}\<close>. Of the request function
  the limiter only sees whether calling it throws before it returns a promise.
\<close>

record rl_request =
  req_id :: nat
  throwsSync :: bool
  req_timestamp :: int

datatype rl_event = Admission string nat | Completion string nat

text \<open>
  The four maps of the class, and two fields that are not in the source and record what the
  JavaScript runtime holds: \<open>inflight\<close>, the calls of \<open>executeRequest\<close> suspended at an
  \<open>await\<close>, and \<open>rl_log\<close>, the bookkeeping steps done so far.
\<close>

record rate_limiter =
  queues :: "string \<rightharpoonup> rl_request list"
  activeRequests :: "string \<rightharpoonup> int"
  lastRequestTime :: "string \<rightharpoonup> int"
  requestHistory :: "string \<rightharpoonup> int list"
  inflight :: "(string \<times> rl_request) list"
  rl_log :: "rl_event list"

definition new_RateLimiter :: rate_limiter where
  "new_RateLimiter =
     \<lparr>queues = Map.empty, activeRequests = Map.empty, lastRequestTime = Map.empty,
      requestHistory = Map.empty, inflight = [], rl_log = []\<rparr>"

text \<open>\<open>map.get(key) || dflt\<close> on a map of numbers or arrays.\<close>

definition get_or :: "('k \<rightharpoonup> 'v) \<Rightarrow> 'k \<Rightarrow> 'v \<Rightarrow> 'v" where
  "get_or m k dflt = (case m k of None \<Rightarrow> dflt | Some v \<Rightarrow> v)"

text \<open>
  With a member of \<open>Object.prototype\<close> for \<open>config\<close>, its three limits are
  \<open>undefined\<close>: each comparison of \<open>canMakeRequest\<close> is false and it returns true;
  in \<open>getWaitTime\<close>, \<open>config.minInterval - (now - lastRequest)\<close> is \<open>NaN\<close> and so is
  the result; in \<open>processQueue\<close>, \<open>availableSlots\<close> is \<open>NaN\<close> and the loop does
  not run.
\<close>

definition canMakeRequest :: "rate_limiter \<Rightarrow> string \<Rightarrow> int \<Rightarrow> bool" where
  "canMakeRequest s apiType now =
     (case get_property config apiType of
        Undefined \<Rightarrow> True
      | Inherited \<Rightarrow> True
      | Own cfg \<Rightarrow>
         (let activeCount = get_or (activeRequests s) apiType 0;
              lastRequest = get_or (lastRequestTime s) apiType 0;
              history = get_or (requestHistory s) apiType []
          in if activeCount \<ge> maxConcurrent cfg then False
             else if now - lastRequest < minInterval cfg then False
             else (let oneMinuteAgo = now - 60000;
                       recentRequests = filter (\<lambda>time. time > oneMinuteAgo) history
                   in if int (length recentRequests) \<ge> maxPerMinute cfg then False
                      else True)))"

definition getWaitTime :: "rate_limiter \<Rightarrow> string \<Rightarrow> int \<Rightarrow> int option" where
  "getWaitTime s apiType now =
     (case get_property config apiType of
        Undefined \<Rightarrow> Some 0
      | Inherited \<Rightarrow> None
      | Own cfg \<Rightarrow>
         (let lastRequest = get_or (lastRequestTime s) apiType 0;
              history = get_or (requestHistory s) apiType [];
              intervalWait = max 0 (minInterval cfg - (now - lastRequest));
              oneMinuteAgo = now - 60000;
              recentRequests = filter (\<lambda>time. time > oneMinuteAgo) history
          in if int (length recentRequests) \<ge> maxPerMinute cfg
             then (case recentRequests of
                     [] \<Rightarrow> None
                   | t # _ \<Rightarrow> Some (max intervalWait ((t + 60000) - now)))
             else Some (max intervalWait 0)))"

text \<open>
  A clock: the value \<open>Date.now()\<close> returns next, and the amounts by which it advances
  between later readings (none left: it stands still).
\<close>

type_synonym clock = "int \<times> nat list"

fun Date_now :: "clock \<Rightarrow> int \<times> clock" where
  "Date_now (t, []) = (t, (t, []))"
| "Date_now (t, d # ds) = (t, (t + int d, ds))"

definition getQueue :: "rate_limiter \<Rightarrow> string \<Rightarrow> rl_request list \<times> rate_limiter" where
  "getQueue s apiType =
     (case queues s apiType of
        None \<Rightarrow> ([], s\<lparr>queues := (queues s)(apiType \<mapsto> [])\<rparr>)
      | Some q \<Rightarrow> (q, s))"

text \<open>The \<open>finally\<close> block of \<open>executeRequest\<close>; the timer it sets is the step \<open>Timer\<close> below.\<close>

definition executeRequest_finally :: "rate_limiter \<Rightarrow> string \<Rightarrow> rl_request \<Rightarrow> rate_limiter" where
  "executeRequest_finally s apiType request =
     s\<lparr>activeRequests :=
          (activeRequests s)(apiType \<mapsto> max 0 (get_or (activeRequests s) apiType 0 - 1)),
       rl_log := rl_log s @ [Completion apiType (req_id request)]\<rparr>"

text \<open>
  \<open>executeRequest\<close> up to its first \<open>await\<close>. It runs to the end at once when no wait is
  due and the request function throws before returning; otherwise it is suspended, at
  \<open>await this.sleep(waitTime)\<close> or at \<open>await request.requestFunction()\<close>.
\<close>

definition executeRequest_limiter ::
  "rate_limiter \<Rightarrow> string \<Rightarrow> rl_request \<Rightarrow> clock \<Rightarrow> rate_limiter \<times> clock" where
  "executeRequest_limiter s apiType request clk =
     (let (now, clk1) = Date_now clk;
          s1 = s\<lparr>activeRequests :=
                    (activeRequests s)(apiType \<mapsto> get_or (activeRequests s) apiType 0 + 1),
                  lastRequestTime := (lastRequestTime s)(apiType \<mapsto> now),
                  requestHistory :=
                    (requestHistory s)(apiType \<mapsto> get_or (requestHistory s) apiType [] @ [now]),
                  rl_log := rl_log s @ [Admission apiType (req_id request)]\<rparr>;
          (now2, clk2) = Date_now clk1;
          waitTime = getWaitTime s1 apiType now2;
          waits = (case waitTime of None \<Rightarrow> False | Some w \<Rightarrow> w > 0)
      in if \<not> waits \<and> throwsSync request
         then (executeRequest_finally s1 apiType request, clk2)
         else (s1\<lparr>inflight := inflight s1 @ [(apiType, request)]\<rparr>, clk2))"

text \<open>
  The loop of \<open>processQueue\<close>: \<open>availableSlots\<close> is computed once, \<open>queue.length\<close> is read
  again at every test.
\<close>

function processQueue_loop ::
  "string \<Rightarrow> int \<Rightarrow> nat \<Rightarrow> rl_request list \<Rightarrow> rate_limiter \<Rightarrow> clock
     \<Rightarrow> rl_request list \<times> rate_limiter \<times> clock" where
  "processQueue_loop apiType availableSlots i queue s clk =
     (if int i < min availableSlots (int (length queue))
      then (case queue of
              [] \<Rightarrow> (queue, s, clk)
            | request # rest \<Rightarrow>
                (let (s1, clk1) = executeRequest_limiter s apiType request clk
                 in processQueue_loop apiType availableSlots (Suc i) rest s1 clk1))
      else (queue, s, clk))"
  by pat_completeness auto
termination
  by (relation "measure (\<lambda>(apiType, availableSlots, i, queue, s, clk). length queue)") auto

definition processQueue :: "rate_limiter \<Rightarrow> string \<Rightarrow> clock \<Rightarrow> rate_limiter" where
  "processQueue s0 apiType clk =
     (let (queue, s) = getQueue s0 apiType
      in case get_property config apiType of
           Undefined \<Rightarrow> s
         | Inherited \<Rightarrow> s
         | Own cfg \<Rightarrow>
            if length queue = 0 then s
            else (let activeCount = get_or (activeRequests s) apiType 0;
                      availableSlots = maxConcurrent cfg - activeCount;
                      (queue', s', clk') = processQueue_loop apiType availableSlots 0 queue s clk
                  in s'\<lparr>queues := (queues s')(apiType \<mapsto> queue')\<rparr>))"

definition queueRequest :: "rate_limiter \<Rightarrow> string \<Rightarrow> rl_request \<Rightarrow> clock \<Rightarrow> rate_limiter" where
  "queueRequest s0 apiType request clk =
     (let (queue, s) = getQueue s0 apiType;
          s1 = s\<lparr>queues := (queues s)(apiType \<mapsto> queue @ [request])\<rparr>
      in processQueue s1 apiType clk)"

definition cleanupHistory :: "rate_limiter \<Rightarrow> int \<Rightarrow> rate_limiter" where
  "cleanupHistory s now =
     s\<lparr>requestHistory :=
         (\<lambda>apiType. map_option (filter (\<lambda>time. time > now - 3600000)) (requestHistory s apiType))\<rparr>"

text \<open>\<open>reset\<close> clears the four maps; the calls in flight go on.\<close>

definition reset :: "rate_limiter \<Rightarrow> rate_limiter" where
  "reset s =
     s\<lparr>queues := Map.empty, activeRequests := Map.empty, lastRequestTime := Map.empty,
       requestHistory := Map.empty\<rparr>"

text \<open>
  What can happen to a rate limiter: a call of \<open>queueRequest\<close>, the end of the \<open>i\<close>-th
  suspended call of \<open>executeRequest\<close> (its \<open>finally\<close> block), a timer calling
  \<open>processQueue\<close>, \<open>cleanupHistory\<close> and \<open>reset\<close>. A timer step may come at any
  time, which covers every timer the \<open>finally\<close> blocks set.
\<close>

datatype rl_op =
    QueueRequest string rl_request clock
  | Settle nat
  | Timer string clock
  | CleanupHistory int
  | Reset

fun rl_step :: "rate_limiter \<Rightarrow> rl_op \<Rightarrow> rate_limiter" where
  "rl_step s (QueueRequest apiType request clk) = queueRequest s apiType request clk"
| "rl_step s (Settle i) =
     (if i < length (inflight s)
      then (let (apiType, request) = inflight s ! i
            in executeRequest_finally
                 (s\<lparr>inflight := take i (inflight s) @ drop (Suc i) (inflight s)\<rparr>) apiType request)
      else s)"
| "rl_step s (Timer apiType clk) = processQueue s apiType clk"
| "rl_step s (CleanupHistory now) = cleanupHistory s now"
| "rl_step s Reset = reset s"

definition rl_run :: "rl_op list \<Rightarrow> rate_limiter \<Rightarrow> rate_limiter" where
  "rl_run ops s = foldl rl_step s ops"

definition activeCount_of :: "rate_limiter \<Rightarrow> string \<Rightarrow> int" where
  "activeCount_of s apiType = get_or (activeRequests s) apiType 0"

definition inflight_count :: "rate_limiter \<Rightarrow> string \<Rightarrow> int" where
  "inflight_count s apiType = int (length (filter (\<lambda>(a, r). a = apiType) (inflight s)))"


definition act_inv :: "rate_limiter \<Rightarrow> bool" where
  "act_inv s =
     (\<forall>R. 0 \<le> activeCount_of s R
        \<and> (\<forall>cfg. config R = Some cfg \<longrightarrow> activeCount_of s R \<le> maxConcurrent cfg))"

definition flight_inv :: "rate_limiter \<Rightarrow> bool" where
  "flight_inv s = (\<forall>R. inflight_count s R = activeCount_of s R)"

text \<open>
  The admission test as the specification words it: three constraints, the third over the
  closed window from \<open>now - 60000\<close> to \<open>now\<close>.
\<close>

definition spec_CanAdmit :: "rate_limiter \<Rightarrow> policy \<Rightarrow> string \<Rightarrow> int \<Rightarrow> bool" where
  "spec_CanAdmit s cfg R now =
     (activeCount_of s R < maxConcurrent cfg
      \<and> now - get_or (lastRequestTime s) R 0 \<ge> minInterval cfg
      \<and> int (length (filter (\<lambda>t. now - 60000 \<le> t \<and> t \<le> now) (get_or (requestHistory s) R [])))
          < maxPerMinute cfg)"

definition recent_count :: "rate_limiter \<Rightarrow> string \<Rightarrow> int \<Rightarrow> int" where
  "recent_count s R now =
     int (length (filter (\<lambda>t. now - 60000 < t) (get_or (requestHistory s) R [])))"

definition configuredTypes :: "string list" where
  "configuredTypes =
     [''LanguageModel'', ''Summarizer'', ''Writer'', ''Rewriter'', ''Proofreader'', ''Translator'']"

definition rl_request_of :: "nat \<Rightarrow> rl_request" where
  "rl_request_of n = \<lparr>req_id = n, throwsSync = False, req_timestamp = 0\<rparr>"

section \<open>Performance monitor (performance-monitor.js)\<close>

text \<open>
  Durations and memory deltas are the values the monitor computes from \<open>performance.now()\<close>
  and \<open>getMemoryUsage()\<close>; they are inputs here. \<open>Infinity\<close>, the initial \<open>minDuration\<close>,
  is \<open>None\<close>. The \<open>options\<close> spread into a metrics object are extra keys; every caller in
  the repository passes keys other than the five the monitor sets itself.
\<close>

datatype opt_value = Str string | Num int

record op_metrics =
  duration :: real
  memoryDelta :: real
  success :: bool
  error_msg :: "js_string option"
  timestamp :: int
  options :: "(string \<times> opt_value) list"

record aggregated =
  count :: nat
  totalDuration :: real
  averageDuration :: real
  minDuration :: "real option"
  maxDuration :: real
  successCount :: nat
  failureCount :: nat
  totalMemoryDelta :: real
  averageMemoryDelta :: real
  lastExecuted :: int

record perf_monitor =
  metrics :: "string \<rightharpoonup> aggregated"
  operationHistory :: "(string \<times> op_metrics) list"
  activeOperations :: "(string \<times> int) list"

definition maxHistorySize :: nat where
  "maxHistorySize = 1000"

definition new_PerformanceMonitor :: perf_monitor where
  "new_PerformanceMonitor = \<lparr>metrics = Map.empty, operationHistory = [], activeOperations = []\<rparr>"

text \<open>What the monitor reads from the clocks during one call of \<open>measureOperation\<close>.\<close>

record measurement =
  startTime :: int \<comment> \<open>\<open>Date.now()\<close> at the start\<close>
  elapsed :: real \<comment> \<open>\<open>performance.now() - start\<close> when the operation is recorded\<close>
  memDelta :: real
  recordedAt :: int \<comment> \<open>\<open>Date.now()\<close> inside \<open>recordOperation\<close>\<close>

text \<open>The result of awaiting a promise: a value, a thrown value, or nothing yet.\<close>

datatype 'a outcome = Returned 'a | Threw js_error | Pending

text \<open>
  A value that a callback returns; \<open>None\<close> is \<open>undefined\<close>, which is also what
  \<open>measureOperation\<close> returns when it returns without a result of \<open>fn\<close>.
\<close>

type_synonym js_value = "js_string option"

definition new_aggregated :: aggregated where
  "new_aggregated =
     \<lparr>count = 0, totalDuration = 0, averageDuration = 0, minDuration = None, maxDuration = 0,
      successCount = 0, failureCount = 0, totalMemoryDelta = 0, averageMemoryDelta = 0,
      lastExecuted = 0\<rparr>"

definition updateAggregatedMetrics :: "perf_monitor \<Rightarrow> string \<Rightarrow> op_metrics \<Rightarrow> perf_monitor" where
  "updateAggregatedMetrics pm operationName m =
     (let a0 = (case metrics pm operationName of None \<Rightarrow> new_aggregated | Some a \<Rightarrow> a);
          a1 = a0\<lparr>count := count a0 + 1, totalDuration := totalDuration a0 + duration m\<rparr>;
          a2 = a1\<lparr>averageDuration := totalDuration a1 / real (count a1),
                  minDuration := (case minDuration a1 of None \<Rightarrow> Some (duration m)
                                  | Some d \<Rightarrow> Some (min d (duration m))),
                  maxDuration := max (maxDuration a1) (duration m),
                  totalMemoryDelta := totalMemoryDelta a1 + memoryDelta m\<rparr>;
          a3 = a2\<lparr>averageMemoryDelta := totalMemoryDelta a2 / real (count a2),
                  lastExecuted := timestamp m\<rparr>;
          a4 = (if success m then a3\<lparr>successCount := successCount a3 + 1\<rparr>
                else a3\<lparr>failureCount := failureCount a3 + 1\<rparr>)
      in pm\<lparr>metrics := (metrics pm)(operationName \<mapsto> a4)\<rparr>)"

definition recordOperation :: "perf_monitor \<Rightarrow> string \<Rightarrow> op_metrics \<Rightarrow> int \<Rightarrow> perf_monitor" where
  "recordOperation pm operationName m now =
     (let h = operationHistory pm @ [(operationName, m\<lparr>timestamp := now\<rparr>)];
          h' = (if length h > maxHistorySize then drop (length h - maxHistorySize) h else h)
      in updateAggregatedMetrics (pm\<lparr>operationHistory := h'\<rparr>) operationName m)"

definition addActiveOperation :: "perf_monitor \<Rightarrow> string \<Rightarrow> int \<Rightarrow> perf_monitor" where
  "addActiveOperation pm operationName t =
     pm\<lparr>activeOperations :=
          filter (\<lambda>k. k \<noteq> (operationName, t)) (activeOperations pm) @ [(operationName, t)]\<rparr>"

definition removeActiveOperation :: "perf_monitor \<Rightarrow> string \<Rightarrow> int \<Rightarrow> perf_monitor" where
  "removeActiveOperation pm operationName t =
     pm\<lparr>activeOperations := filter (\<lambda>k. k \<noteq> (operationName, t)) (activeOperations pm)\<rparr>"

text \<open>\<open>err.message\<close> in a \<open>catch\<close> block: \<open>None\<close> is \<open>undefined\<close>.\<close>

definition message_of :: "js_error \<Rightarrow> js_string option" where
  "message_of e =
     (case e of
        Enhanced x \<Rightarrow> Some (message x)
      | Plain m str \<Rightarrow> (if m = [] then None else Some m)
      | _ \<Rightarrow> None)"

definition TypeError_reading_message :: js_error where
  "TypeError_reading_message =
     Plain (js ''Cannot read properties of undefined (reading message)'')
           (js ''TypeError: Cannot read properties of undefined (reading message)'')"

text \<open>
  \<open>measureOperation\<close> in two parts: up to \<open>await fn()\<close>, and from the moment the promise
  of \<open>fn\<close> settles. In the \<open>catch\<close> block \<open>err.message\<close> is read before anything is
  recorded, and it throws for \<open>undefined\<close> and \<open>null\<close>; the \<open>finally\<close> block runs in
  every case; the error is thrown again under the test \<open>if (error)\<close>.
\<close>

definition measureOperation_begin :: "perf_monitor \<Rightarrow> string \<Rightarrow> int \<Rightarrow> perf_monitor" where
  "measureOperation_begin pm operationName start = addActiveOperation pm operationName start"

definition measureOperation_end ::
  "perf_monitor \<Rightarrow> string \<Rightarrow> 'a option outcome \<Rightarrow> measurement \<Rightarrow> (string \<times> opt_value) list
     \<Rightarrow> 'a option outcome \<times> perf_monitor" where
  "measureOperation_end pm operationName fn_result ms opts =
     (case fn_result of
        Pending \<Rightarrow> (Pending, pm)
      | Returned result \<Rightarrow>
          (let pm1 = recordOperation pm operationName
                       \<lparr>duration = elapsed ms, memoryDelta = memDelta ms, success = True,
                        error_msg = None, timestamp = startTime ms, options = opts\<rparr>
                       (recordedAt ms)
           in (Returned result, removeActiveOperation pm1 operationName (startTime ms)))
      | Threw err \<Rightarrow>
          (if err = Nullish
           then (Threw TypeError_reading_message,
                 removeActiveOperation pm operationName (startTime ms))
           else (let pm1 = recordOperation pm operationName
                             \<lparr>duration = elapsed ms, memoryDelta = memDelta ms, success = False,
                              error_msg = message_of err, timestamp = startTime ms,
                              options = opts\<rparr>
                             (recordedAt ms);
                     pm2 = removeActiveOperation pm1 operationName (startTime ms)
                 in if truthy err then (Threw err, pm2) else (Returned None, pm2))))"

definition measureOperation ::
  "perf_monitor \<Rightarrow> string \<Rightarrow> 'a option outcome \<Rightarrow> measurement \<Rightarrow> (string \<times> opt_value) list
     \<Rightarrow> 'a option outcome \<times> perf_monitor" where
  "measureOperation pm operationName fn_result ms opts =
     measureOperation_end (measureOperation_begin pm operationName (startTime ms)) operationName
       fn_result ms opts"


section \<open>Request queue (request-queue.js)\<close>

datatype status = St_queued | St_processing | St_completed | St_failed

text \<open>
  A request object. Its \<open>priority\<close> is what \<open>add\<close> read from \<open>priorityLevels\<close>: a
  number, or (\<open>None\<close>) a member of \<open>Object.prototype\<close>, which is not a number.
\<close>

record request =
  rid :: nat
  priority :: "int option"
  priorityName :: string
  retries :: int
  maxRetries :: int
  timeout :: int
  apiType :: string
  description :: string
  createdAt :: int
  attempts :: int
  status :: status
  startedAt :: "int option"
  completedAt :: "int option"
  duration_of :: "int option"
  lastError :: "js_string option"

text \<open>The \<open>options\<close> argument of \<open>add\<close>; \<open>None\<close> is a key left out, which takes the default.\<close>

record add_options =
  o_priority :: "string option"
  o_retries :: "int option"
  o_timeout :: "int option"
  o_apiType :: "string option"
  o_description :: "string option"

record history_record =
  h_id :: nat
  h_description :: string
  h_apiType :: string
  h_priority :: string
  h_status :: status
  h_timestamp :: int
  h_attempt :: int
  h_duration :: int
  h_error :: "js_string option"

datatype settlement = Resolved js_value | Rejected js_error

text \<open>
  Where the \<open>async\<close> function \<open>process\<close> stands: not running, suspended at
  \<open>await this.executeRequest(request)\<close>, or suspended at \<open>await this.sleep(this.delay)\<close>.
\<close>

datatype loop_state = Idle | Executing request | Sleeping

text \<open>
  The fields of the class, and four that record what the runtime holds or has been asked to
  do: \<open>loop\<close>, the pending retry timers (delay and request), the calls of \<open>resolve\<close> and
  \<open>reject\<close>, and the calls of \<open>requestFn\<close>. \<open>activeRequests\<close> is a map from ids to the
  request objects themselves; its keys are kept.
\<close>

record qstate =
  queue :: "request list"
  processing :: bool
  delay :: int
  maxRetries_default :: int
  retryDelay :: int
  activeRequests_q :: "nat list"
  requestHistory_q :: "history_record list"
  performanceMonitor :: perf_monitor
  loop :: loop_state
  timers :: "(int \<times> request) list"
  settled :: "(nat \<times> settlement) list"
  requestFn_calls :: "nat list"

definition new_AIRequestQueue :: qstate where
  "new_AIRequestQueue =
     \<lparr>queue = [], processing = False, delay = 1000, maxRetries_default = 3, retryDelay = 2000,
      activeRequests_q = [], requestHistory_q = [], performanceMonitor = new_PerformanceMonitor,
      loop = Idle, timers = [], settled = [], requestFn_calls = []\<rparr>"

definition priorityLevels :: "string \<rightharpoonup> int" where
  "priorityLevels = [''critical'' \<mapsto> 1, ''high'' \<mapsto> 2, ''normal'' \<mapsto> 3, ''low'' \<mapsto> 4]"

definition maxHistorySize_q :: nat where
  "maxHistorySize_q = 500"

definition recordRequest :: "qstate \<Rightarrow> request \<Rightarrow> status \<Rightarrow> int \<Rightarrow> qstate" where
  "recordRequest s r st now =
     (let record = \<lparr>h_id = rid r, h_description = description r, h_apiType = apiType r,
                     h_priority = priorityName r, h_status = st, h_timestamp = now,
                     h_attempt = attempts r,
                     h_duration = (case duration_of r of None \<Rightarrow> 0 | Some d \<Rightarrow> d),
                     h_error = lastError r\<rparr>;
          h = requestHistory_q s @ [record];
          h' = (if length h > maxHistorySize_q then drop (length h - maxHistorySize_q) h else h)
      in s\<lparr>requestHistory_q := h'\<rparr>)"

text \<open>
  \<open>this.queue.push(request); this.queue.sort((a, b) => a.priority - b.priority)\<close>.
  The comparator gives a number, or \<open>NaN\<close> when one of the two priorities is not a
  number, which \<open>sort\<close> takes for 0. \<open>Array.prototype.sort\<close> is stable, and for a
  consistent comparator the result of a stable sort is unique:
  \<^item> when every priority is a number, it is the stable sort by that number (\<open>sort_key\<close>
    is a stable sort);
  \<^item> when some priority is not a number and the numbers among the others are all the same,
    every two elements compare equal and the array is left as it is;
  \<^item> otherwise the comparator is not consistent (it makes two different numbers both equal
    to a third value) and ECMAScript leaves the order to the implementation: some
    rearrangement that nothing here depends on.
\<close>

definition rank :: "request \<Rightarrow> int" where
  "rank r = (case priority r of Some n \<Rightarrow> n | None \<Rightarrow> 0)"

definition numeric :: "request list \<Rightarrow> bool" where
  "numeric q = list_all (\<lambda>x. priority x \<noteq> None) q"

definition same_numbers :: "request list \<Rightarrow> bool" where
  "same_numbers q =
     (case List.map_filter priority q of [] \<Rightarrow> True | n # ns \<Rightarrow> list_all (\<lambda>m. m = n) ns)"

definition implementation_defined_order :: "request list \<Rightarrow> request list" where [code del]:
  "implementation_defined_order = (SOME f. \<forall>q. length (f q) = length q \<and> set (f q) = set q)"

definition push_and_sort :: "request list \<Rightarrow> request \<Rightarrow> request list" where
  "push_and_sort q r =
     (let pushed = q @ [r]
      in if numeric pushed then sort_key rank pushed
         else if same_numbers pushed then pushed
         else implementation_defined_order pushed)"

text \<open>
  The request that \<open>add\<close> builds. \<open>this.priorityLevels[priority] || this.priorityLevels.normal\<close>
  is the level of an own key, \<open>normal\<close> for a name that is not found, and the member
  itself for a name of \<open>Object.prototype\<close>.
\<close>

definition new_request :: "qstate \<Rightarrow> add_options \<Rightarrow> nat \<Rightarrow> int \<Rightarrow> request" where
  "new_request s opts new_id now =
     (let pname = (case o_priority opts of None \<Rightarrow> ''normal'' | Some p \<Rightarrow> p);
          n = (case o_retries opts of None \<Rightarrow> maxRetries_default s | Some n \<Rightarrow> n)
      in \<lparr>rid = new_id,
          priority = (case get_property priorityLevels pname of
                        Own l \<Rightarrow> Some l | Inherited \<Rightarrow> None | Undefined \<Rightarrow> Some 3),
          priorityName = pname,
          retries = n,
          maxRetries = n,
          timeout = (case o_timeout opts of None \<Rightarrow> 10000 | Some t \<Rightarrow> t),
          apiType = (case o_apiType opts of None \<Rightarrow> ''unknown'' | Some a \<Rightarrow> a),
          description = (case o_description opts of None \<Rightarrow> ''Unknown operation'' | Some d \<Rightarrow> d),
          createdAt = now, attempts = 0, status = St_queued,
          startedAt = None, completedAt = None, duration_of = None, lastError = None\<rparr>)"

definition monitor_name :: "request \<Rightarrow> string" where
  "monitor_name r = apiType r @ ''_'' @ description r"

text \<open>
  \<open>executeRequest\<close> up to its \<open>await\<close>: the bookkeeping, the start of
  \<open>measureOperation\<close>, and the call \<open>request.requestFn()\<close> inside \<open>Promise.race\<close>.
\<close>

definition executeRequest_begin :: "qstate \<Rightarrow> request \<Rightarrow> int \<Rightarrow> qstate \<times> request" where
  "executeRequest_begin s request now =
     (let r1 = request\<lparr>status := St_processing, attempts := attempts request + 1,
                      startedAt := Some now\<rparr>;
          s1 = s\<lparr>activeRequests_q := filter (\<lambda>i. i \<noteq> rid r1) (activeRequests_q s) @ [rid r1]\<rparr>;
          s2 = recordRequest s1 r1 St_processing now;
          s3 = s2\<lparr>performanceMonitor :=
                    measureOperation_begin (performanceMonitor s2) (monitor_name r1) now,
                  requestFn_calls := requestFn_calls s2 @ [rid r1]\<rparr>
      in (s3, r1))"

text \<open>
  How the race of \<open>request.requestFn()\<close> against the timeout ends. The timeout rejects with
  \<open>new Error('Request timeout')\<close> and cancels nothing: the promise of \<open>requestFn\<close> goes on.
\<close>

datatype race_result = FnReturned js_value | FnThrew js_error | TimedOut

definition race_outcome :: "race_result \<Rightarrow> js_value outcome" where
  "race_outcome rr =
     (case rr of
        FnReturned v \<Rightarrow> Returned v
      | FnThrew e \<Rightarrow> Threw e
      | TimedOut \<Rightarrow> Threw (Plain (js ''Request timeout'') (js ''Error: Request timeout'')))"

text \<open>
  \<open>executeRequest\<close> from the moment the race settles: the end of \<open>measureOperation\<close>, then
  the success path or the \<open>catch\<close> block. The \<open>catch\<close> block tests only
  \<open>request.attempts < request.maxRetries\<close>.
\<close>

text \<open>
  The monitor reads \<open>Date.now()\<close> right after \<open>executeRequest\<close> did; the two readings
  are taken as one, so the measurement of an attempt starts at \<open>startedAt\<close>.
\<close>

definition started_at :: "request \<Rightarrow> measurement \<Rightarrow> measurement" where
  "started_at request ms =
     ms\<lparr>startTime := (case startedAt request of None \<Rightarrow> startTime ms | Some t \<Rightarrow> t)\<rparr>"

definition executeRequest_end ::
  "qstate \<Rightarrow> request \<Rightarrow> race_result \<Rightarrow> measurement \<Rightarrow> int \<Rightarrow> qstate" where
  "executeRequest_end s request rr ms now =
     (let (res, pm) = measureOperation_end (performanceMonitor s) (monitor_name request)
                        (race_outcome rr) (started_at request ms)
                        [(''requestId'', Num (int (rid request))),
                         (''priority'', Str (priorityName request)),
                         (''attempt'', Num (attempts request))];
          s1 = s\<lparr>performanceMonitor := pm\<rparr>;
          dur = (case startedAt request of None \<Rightarrow> None | Some t \<Rightarrow> Some (now - t))
      in case res of
           Pending \<Rightarrow> s1
         | Returned result \<Rightarrow>
             (let r1 = request\<lparr>status := St_completed, completedAt := Some now, duration_of := dur\<rparr>;
                  s2 = recordRequest s1 r1 St_completed now
              in s2\<lparr>activeRequests_q := filter (\<lambda>i. i \<noteq> rid r1) (activeRequests_q s2),
                    settled := settled s2 @ [(rid r1, Resolved result)]\<rparr>)
         | Threw error \<Rightarrow>
             (let r1 = request\<lparr>status := St_failed, lastError := message_of error,
                              completedAt := Some now, duration_of := dur\<rparr>;
                  s2 = recordRequest s1 r1 St_failed now
              in if attempts r1 < maxRetries r1
                 then s2\<lparr>timers := timers s2 @ [(retryDelay s2 * attempts r1, r1)]\<rparr>
                 else s2\<lparr>activeRequests_q := filter (\<lambda>i. i \<noteq> rid r1) (activeRequests_q s2),
                         settled := settled s2 @ [(rid r1, Rejected error)]\<rparr>))"

text \<open>
  One turn of the \<open>while\<close> loop of \<open>process\<close>, from its test to the \<open>await\<close>: the head
  of the queue is taken with \<open>shift\<close>.
\<close>

definition take_next :: "qstate \<Rightarrow> int \<Rightarrow> qstate" where
  "take_next s now =
     (case queue s of
        [] \<Rightarrow> s\<lparr>processing := False, loop := Idle\<rparr>
      | request # rest \<Rightarrow>
          (let (s1, r1) = executeRequest_begin (s\<lparr>queue := rest\<rparr>) request now
           in s1\<lparr>loop := Executing r1\<rparr>))"

definition process :: "qstate \<Rightarrow> int \<Rightarrow> qstate" where
  "process s now =
     (if processing s \<or> length (queue s) = 0 then s
      else take_next (s\<lparr>processing := True\<rparr>) now)"

definition add :: "qstate \<Rightarrow> add_options \<Rightarrow> nat \<Rightarrow> int \<Rightarrow> qstate" where
  "add s opts new_id now =
     (let request = new_request s opts new_id now;
          s1 = s\<lparr>queue := push_and_sort (queue s) request\<rparr>;
          s2 = recordRequest s1 request St_queued now
      in if \<not> processing s2 then process s2 now else s2)"

text \<open>
  The steps of a queue: a call of \<open>add\<close>; the race of the request in execution settles;
  the sleep between two requests ends; the \<open>i\<close>-th retry timer fires
  (\<open>this.queue.unshift(request); this.process()\<close>).
\<close>

datatype q_op =
    Add add_options nat int
  | Finish race_result measurement int
  | Wake int
  | TimerFire nat int

fun q_step :: "qstate \<Rightarrow> q_op \<Rightarrow> qstate" where
  "q_step s (Add opts new_id now) = add s opts new_id now"
| "q_step s (Finish rr ms now) =
     (case loop s of
        Executing request \<Rightarrow>
          (let s1 = executeRequest_end s request rr ms now
           in if length (queue s1) > 0 then s1\<lparr>loop := Sleeping\<rparr>
              else s1\<lparr>processing := False, loop := Idle\<rparr>)
      | _ \<Rightarrow> s)"
| "q_step s (Wake now) = (case loop s of Sleeping \<Rightarrow> take_next s now | _ \<Rightarrow> s)"
| "q_step s (TimerFire i now) =
     (if i < length (timers s)
      then (let (d, request) = timers s ! i;
                s1 = s\<lparr>timers := take i (timers s) @ drop (Suc i) (timers s),
                       queue := request # queue s\<rparr>
            in process s1 now)
      else s)"

definition q_run :: "q_op list \<Rightarrow> qstate \<Rightarrow> qstate" where
  "q_run ops s = foldl q_step s ops"

definition is_TimerFire :: "q_op \<Rightarrow> bool" where
  "is_TimerFire op = (case op of TimerFire i now \<Rightarrow> True | _ \<Rightarrow> False)"

text \<open>
  A request whose work fails at every attempt, alone in the queue: it is added, and then each
  failure is followed by the firing of its retry timer, \<open>k\<close> times, and by one last failure.
\<close>

definition fail_then_retry :: "js_error \<Rightarrow> measurement \<Rightarrow> int \<Rightarrow> nat \<Rightarrow> q_op list" where
  "fail_then_retry e ms now k = concat (replicate k [Finish (FnThrew e) ms now, TimerFire 0 now])"

definition always_failing :: "add_options \<Rightarrow> nat \<Rightarrow> js_error \<Rightarrow> measurement \<Rightarrow> int \<Rightarrow> nat \<Rightarrow> q_op list" where
  "always_failing opts new_id e ms now k =
     Add opts new_id now # fail_then_retry e ms now k @ [Finish (FnThrew e) ms now]"


section \<open>AI service: sessions and \<open>withAISession\<close> (ai-service.js)\<close>

text \<open>
  A session is a handle issued by the provider. \<open>ai_log\<close> is not in the source: it lists,
  in order, the sleeps on the rate limiter and the calls of \<open>createSession\<close> and
  \<open>destroySession\<close>.
\<close>

datatype ai_event = Slept "int option" | CreateSession string | DestroySession nat

record ai_service =
  rateLimiter :: rate_limiter
  activeSessions :: "nat list"
  monitor :: perf_monitor
  ai_log :: "ai_event list"

definition new_AIService :: ai_service where
  "new_AIService =
     \<lparr>rateLimiter = new_RateLimiter, activeSessions = [], monitor = new_PerformanceMonitor,
      ai_log = []\<rparr>"

definition knownApiTypes :: "string list" where
  "knownApiTypes =
     [''LanguageModel'', ''Summarizer'', ''Writer'', ''Rewriter'', ''Proofreader'', ''Translator'']"

text \<open>
  \<open>createSession\<close>: \<open>created\<close> is what the provider's \<open>create\<close> gives in the end (after
  the second try with the caller's own configuration). An API type outside the \<open>switch\<close>
  throws.
\<close>

definition createSession :: "ai_service \<Rightarrow> string \<Rightarrow> nat outcome \<Rightarrow> nat option outcome \<times> ai_service" where
  "createSession s api created =
     (let s1 = s\<lparr>ai_log := ai_log s @ [CreateSession api]\<rparr>
      in if api \<in> set knownApiTypes
         then (case created of
                 Returned session \<Rightarrow>
                   (Returned (Some session),
                    s1\<lparr>activeSessions :=
                         filter (\<lambda>h. h \<noteq> session) (activeSessions s1) @ [session]\<rparr>)
               | Threw e \<Rightarrow> (Threw e, s1)
               | Pending \<Rightarrow> (Pending, s1))
         else (Threw (Plain (js (''Unknown API type: '' @ api))
                             (js (''Error: Unknown API type: '' @ api))),
               s1))"

text \<open>How \<open>session.destroy()\<close> ends, when the session has such a function.\<close>

datatype destroy_result = DestroyOk | DestroyThrows js_error | DestroyPending | NoDestroyFunction

text \<open>
  \<open>destroySession\<close> catches what \<open>session.destroy()\<close> throws, and then leaves the session
  in \<open>activeSessions\<close>.
\<close>

definition destroySession :: "ai_service \<Rightarrow> nat \<Rightarrow> destroy_result \<Rightarrow> js_value outcome \<times> ai_service" where
  "destroySession s session d =
     (let s1 = s\<lparr>ai_log := ai_log s @ [DestroySession session]\<rparr>;
          deleted = s1\<lparr>activeSessions := filter (\<lambda>h. h \<noteq> session) (activeSessions s1)\<rparr>
      in case d of
           DestroyOk \<Rightarrow> (Returned None, deleted)
         | NoDestroyFunction \<Rightarrow> (Returned None, deleted)
         | DestroyThrows e \<Rightarrow> (Returned None, s1)
         | DestroyPending \<Rightarrow> (Pending, s1))"

text \<open>What one run of the function that \<open>withAISession\<close> hands to the queue meets.\<close>

record body_env =
  env_now :: int
  created :: "nat outcome"
  callback_result :: "js_value outcome"
  destroyed :: destroy_result
  ms_create :: measurement
  ms_execute :: measurement
  ms_destroy :: measurement

text \<open>
  The \<open>finally\<close> block: \<open>if (session)\<close>, the call of \<open>destroySession\<close> under
  \<open>measureOperation\<close>, inside a \<open>try\<close> that swallows its error. \<open>after\<close> is how the
  \<open>try\<close>/\<open>catch\<close> before it ended.
\<close>

definition withAISession_finally ::
  "ai_service \<Rightarrow> string \<Rightarrow> nat option \<Rightarrow> body_env \<Rightarrow> js_value outcome \<Rightarrow> js_value outcome \<times> ai_service" where
  "withAISession_finally s api session env after =
     (case session of
        None \<Rightarrow> (after, s)
      | Some h \<Rightarrow>
          (let pm0 = measureOperation_begin (monitor s) (api @ ''_destroySession'')
                       (startTime (ms_destroy env));
               (d, s1) = destroySession (s\<lparr>monitor := pm0\<rparr>) h (destroyed env);
               (r, pm1) = measureOperation_end (monitor s1) (api @ ''_destroySession'') d
                            (ms_destroy env) [];
               s2 = s1\<lparr>monitor := pm1\<rparr>
           in case r of Pending \<Rightarrow> (Pending, s2) | _ \<Rightarrow> (after, s2)))"

text \<open>
  The function itself. It reads \<open>canMakeRequest\<close> and \<open>getWaitTime\<close> and sleeps; it calls
  nothing else of the rate limiter. \<open>aiImpactTracker.trackOperation\<close> is an \<open>async\<close>
  function that is not awaited and is left out. Whatever is caught is classified and the
  classified error is thrown.
\<close>

text \<open>
  The \<open>catch\<close> block: \<open>classify\<close>, \<open>log\<close> (which catches its own errors), and
  \<open>throw classified\<close>; when \<open>classify\<close> throws, that is what leaves the block.
\<close>

definition withAISession_catch :: "js_error \<Rightarrow> js_error" where
  "withAISession_catch e =
     (case classify e of Inr classified \<Rightarrow> Enhanced classified | Inl thrown \<Rightarrow> thrown)"

definition withAISession_body :: "ai_service \<Rightarrow> string \<Rightarrow> body_env \<Rightarrow> js_value outcome \<times> ai_service" where
  "withAISession_body s0 api env =
     (let s = (if \<not> canMakeRequest (rateLimiter s0) api (env_now env)
               then s0\<lparr>ai_log := ai_log s0 @ [Slept (getWaitTime (rateLimiter s0) api (env_now env))]\<rparr>
               else s0);
          pm0 = measureOperation_begin (monitor s) (api @ ''_createSession'')
                  (startTime (ms_create env));
          (c, s1) = createSession (s\<lparr>monitor := pm0\<rparr>) api (created env);
          (c', pm1) = measureOperation_end (monitor s1) (api @ ''_createSession'') c (ms_create env) [];
          s2 = s1\<lparr>monitor := pm1\<rparr>
      in case c' of
           Pending \<Rightarrow> (Pending, s2)
         | Threw e \<Rightarrow> withAISession_finally s2 api None env (Threw (withAISession_catch e))
         | Returned session \<Rightarrow>
             (let (x, pm2) = measureOperation (monitor s2) (api @ ''_execute'')
                               (callback_result env) (ms_execute env) [];
                  s3 = s2\<lparr>monitor := pm2\<rparr>
              in case x of
                   Pending \<Rightarrow> (Pending, s3)
                 | Returned result \<Rightarrow> withAISession_finally s3 api session env (Returned result)
                 | Threw e \<Rightarrow>
                     withAISession_finally s3 api session env (Threw (withAISession_catch e))))"

definition destroy_calls :: "ai_service \<Rightarrow> nat \<Rightarrow> nat" where
  "destroy_calls s h = length (filter (\<lambda>ev. ev = DestroySession h) (ai_log s))"

definition is_Completion :: "rl_event \<Rightarrow> bool" where
  "is_Completion ev = (case ev of Completion a n \<Rightarrow> True | _ \<Rightarrow> False)"

definition completion_records :: "ai_service \<Rightarrow> nat" where
  "completion_records s = length (filter is_Completion (rl_log (rateLimiter s)))"

definition settles :: "'a outcome \<Rightarrow> bool" where
  "settles r = (case r of Pending \<Rightarrow> False | _ \<Rightarrow> True)"

definition a_measurement :: measurement where
  "a_measurement = \<lparr>startTime = 1000, elapsed = 500, memDelta = 0, recordedAt = 1500\<rparr>"

text \<open>
  Ten Proofreader requests, two seconds apart from time 40000 on, each finished before the
  next is queued.
\<close>

definition boundary_ops :: "rl_op list" where
  "boundary_ops =
     concat (map (\<lambda>k. [QueueRequest ''Proofreader'' (rl_request_of k) (40000 + 2000 * int k, []),
                        Settle 0]) [0..<10])"

definition boundary_state :: rate_limiter where
  "boundary_state = rl_run boundary_ops new_RateLimiter"

definition two_rewriter_ops :: "rl_op list" where
  "two_rewriter_ops =
     [QueueRequest ''Rewriter'' (rl_request_of 1) (5000, []),
      QueueRequest ''Rewriter'' (rl_request_of 2) (5001, [])]"

section \<open>Named states and inputs\<close>

text \<open>The request as the \<open>catch\<close> block of \<open>executeRequest\<close> leaves it.\<close>

definition failed_request :: "request \<Rightarrow> js_error \<Rightarrow> int \<Rightarrow> request" where
  "failed_request r e now =
     r\<lparr>status := St_failed, lastError := message_of e, completedAt := Some now,
       duration_of := (case startedAt r of None \<Rightarrow> None | Some t \<Rightarrow> Some (now - t))\<rparr>"


text \<open>A request in execution with nothing else queued and no retry timer pending.\<close>

definition alone :: "qstate \<Rightarrow> request \<Rightarrow> bool" where
  "alone s r = (loop s = Executing r \<and> queue s = [] \<and> timers s = [] \<and> processing s)"

definition opts_retries :: "int \<Rightarrow> add_options" where
  "opts_retries n = \<lparr>o_priority = None, o_retries = Some n, o_timeout = None,
                     o_apiType = Some ''Summarizer'', o_description = Some ''summary''\<rparr>"

definition opts_priority :: "string \<Rightarrow> add_options" where
  "opts_priority p = \<lparr>o_priority = Some p, o_retries = None, o_timeout = None,
                      o_apiType = Some ''Writer'', o_description = Some ''draft''\<rparr>"

definition timeout_error :: js_error where
  "timeout_error = Enhanced (EnhancedError (js ''Operation timed out'') TIMEOUT)"


definition executing_priority :: "qstate \<Rightarrow> int option" where
  "executing_priority s = (case loop s of Executing r \<Rightarrow> priority r | _ \<Rightarrow> None)"

definition retry_unshift_ops :: "q_op list" where
  "retry_unshift_ops =
     [Add (opts_priority ''low'') 1 1000,
      Finish (FnThrew timeout_error) a_measurement 1500,
      Add (opts_priority ''critical'') 2 2000,
      Add (opts_priority ''critical'') 3 2100,
      TimerFire 0 3500,
      Finish (FnReturned None) a_measurement 4000]"

definition four_adds :: "q_op list" where
  "four_adds =
     [Add (opts_priority ''low'') 1 1000,
      Add (opts_priority ''low'') 2 1100,
      Add (opts_priority ''critical'') 3 1200,
      Add (opts_priority ''low'') 4 1300]"


definition env_success :: body_env where
  "env_success = \<lparr>env_now = 100000, created = Returned 7, callback_result = Returned (Some (js ''ok'')),
     destroyed = DestroyOk, ms_create = a_measurement, ms_execute = a_measurement,
     ms_destroy = a_measurement\<rparr>"

definition env_hang :: body_env where
  "env_hang = env_success\<lparr>callback_result := Pending\<rparr>"

text \<open>As \<open>env_success\<close>, but \<open>session.destroy()\<close> throws.\<close>

definition env_destroy_throws :: body_env where
  "env_destroy_throws = env_success\<lparr>destroyed := DestroyThrows timeout_error\<rparr>"


text \<open>A Rewriter request is started, \<open>reset\<close> is called, and a second one is queued.\<close>

definition reset_overlap_ops :: "rl_op list" where
  "reset_overlap_ops =
     [QueueRequest ''Rewriter'' (rl_request_of 1) (5000, []),
      Reset,
      QueueRequest ''Rewriter'' (rl_request_of 2) (5001, [])]"

text \<open>Whether the bookkeeping of an admission of request \<open>n\<close> for type \<open>R\<close> has been done.\<close>

definition admitted :: "rate_limiter \<Rightarrow> string \<Rightarrow> nat \<Rightarrow> bool" where
  "admitted s R n = (Admission R n \<in> set (rl_log s))"

definition only_configured_admitted :: "rate_limiter \<Rightarrow> bool" where
  "only_configured_admitted s = (\<forall>a k. Admission a k \<in> set (rl_log s) \<longrightarrow> a \<in> set configuredTypes)"

text \<open>
  \<open>Object.create(null)\<close> as a rejection value: it is truthy, has no \<open>message\<close>, and
  \<open>String\<close> of it throws a TypeError.
\<close>

definition no_prototype_object :: js_error where
  "no_prototype_object =
     Unprintable (Plain (js ''Cannot convert object to primitive value'')
                        (js ''TypeError: Cannot convert object to primitive value''))"

text \<open>
  A call of \<open>add\<close> whose \<open>priority\<close> option is not the name of a member of
  \<open>Object.prototype\<close>, so that the priority of the request is a number; and the ids of
  the requests handed to \<open>add\<close>, in the order of the calls.
\<close>

definition plain_add :: "q_op \<Rightarrow> bool" where
  "plain_add op =
     (case op of
        Add opts new_id now \<Rightarrow>
          (case o_priority opts of None \<Rightarrow> True | Some p \<Rightarrow> p \<notin> set objectPrototypeKeys)
      | _ \<Rightarrow> True)"

definition added_id :: "q_op \<Rightarrow> nat list" where
  "added_id op = (case op of Add opts new_id now \<Rightarrow> [new_id] | _ \<Rightarrow> [])"

definition added_ids :: "q_op list \<Rightarrow> nat list" where
  "added_ids ops = concat (map added_id ops)"

text \<open>The request as \<open>executeRequest\<close> has it when it calls \<open>requestFn\<close>.\<close>

definition begun :: "request \<Rightarrow> int \<Rightarrow> request" where
  "begun r now = r\<lparr>status := St_processing, attempts := attempts r + 1, startedAt := Some now\<rparr>"

definition executing_id :: "qstate \<Rightarrow> nat option" where
  "executing_id s = (case loop s of Executing r \<Rightarrow> Some (rid r) | _ \<Rightarrow> None)"

text \<open>The state in which the retry timer of \<open>retry_unshift_ops\<close> fires.\<close>

definition before_retry :: qstate where
  "before_retry = q_run (take 4 retry_unshift_ops) new_AIRequestQueue"

text \<open>\<open>session.destroy()\<close> has returned, or there was no such function to call.\<close>

definition destroy_completes :: "destroy_result \<Rightarrow> bool" where
  "destroy_completes d = (d = DestroyOk \<or> d = NoDestroyFunction)"


section \<open>Properties of the rate limiter\<close>

lemma config_Some_cases:
  "config R = Some cfg \<Longrightarrow> 1 \<le> maxConcurrent cfg \<and> 0 < minInterval cfg \<and> 10 \<le> maxPerMinute cfg"
  by (auto simp: config_def split: if_splits)

lemma config_None_iff: "config R = None \<longleftrightarrow> R \<notin> set configuredTypes"
  by (simp add: config_def configuredTypes_def)

lemma get_property_Own: "get_property literal key = Own v \<longleftrightarrow> literal key = Some v"
  by (simp add: get_property_def split: option.splits)

lemma get_property_Undefined:
  "get_property literal key = Undefined
     \<longleftrightarrow> literal key = None \<and> key \<notin> set objectPrototypeKeys"
  by (simp add: get_property_def split: option.splits)

declare processQueue_loop.simps [simp del]


subsection \<open>The counter of requests in flight\<close>

text \<open>
  \<open>executeRequest\<close> raises the counter of its API type by at most one, and the loop of
  \<open>processQueue\<close> calls it only while fewer than \<open>availableSlots\<close> calls were made.
\<close>

lemma executeRequest_limiter_active:
  assumes "executeRequest_limiter s a r clk = (s', clk')" and "0 \<le> activeCount_of s a"
  shows "activeCount_of s' a \<le> activeCount_of s a + 1"
    and "0 \<le> activeCount_of s' a"
    and "R \<noteq> a \<Longrightarrow> activeCount_of s' R = activeCount_of s R"
  using assms
  by (auto simp: executeRequest_limiter_def executeRequest_finally_def activeCount_of_def get_or_def Let_def
      split: prod.splits if_splits option.splits)

lemma loop_active:
  "processQueue_loop a slots i q s clk = (q', s', clk') \<Longrightarrow>
   activeCount_of s a \<le> M - slots + int i \<Longrightarrow> activeCount_of s a \<le> M \<Longrightarrow>
   0 \<le> activeCount_of s a \<Longrightarrow>
   activeCount_of s' a \<le> M \<and> 0 \<le> activeCount_of s' a
     \<and> (\<forall>R. R \<noteq> a \<longrightarrow> activeCount_of s' R = activeCount_of s R)"
proof (induction a slots i q s clk rule: processQueue_loop.induct)
  case (1 apiType availableSlots i queue s clk)
  show ?case
  proof (cases "int i < min availableSlots (int (length queue))")
    case False
    then have "processQueue_loop apiType availableSlots i queue s clk = (queue, s, clk)"
      by (subst processQueue_loop.simps) (simp only: if_False)
    with "1.prems" show ?thesis by simp
  next
    case True
    then obtain request rest where q: "queue = request # rest" by (cases queue) auto
    obtain s1 clk1 where e: "executeRequest_limiter s apiType request clk = (s1, clk1)"
      by (cases "executeRequest_limiter s apiType request clk")
    have "processQueue_loop apiType availableSlots i queue s clk
            = processQueue_loop apiType availableSlots (Suc i) rest s1 clk1"
      using True by (subst processQueue_loop.simps) (simp add: q e)
    with "1.prems"(1)
    have rec: "processQueue_loop apiType availableSlots (Suc i) rest s1 clk1 = (q', s', clk')"
      by simp
    note ex = executeRequest_limiter_active[OF e "1.prems"(4)]
    have b1: "activeCount_of s1 apiType \<le> M - availableSlots + int (Suc i)"
      using ex(1) "1.prems"(2) by simp
    have b2: "activeCount_of s1 apiType \<le> M"
      using ex(1) "1.prems"(2) True by simp
    from "1.IH"[OF True q e[symmetric] refl rec b1 b2 ex(2)] ex(3)
    show ?thesis by simp
  qed
qed


lemma getQueue_active: "getQueue s a = (q, s') \<Longrightarrow> activeCount_of s' R = activeCount_of s R"
  by (auto simp: getQueue_def activeCount_of_def split: option.splits)

lemma activeCount_of_queues_upd [simp]: "activeCount_of (s\<lparr>queues := x\<rparr>) R = activeCount_of s R"
  by (simp add: activeCount_of_def)

lemma processQueue_act_inv: "act_inv s \<Longrightarrow> act_inv (processQueue s a clk)"
proof -
  assume inv: "act_inv s"
  obtain q s0 where g: "getQueue s a = (q, s0)" by (cases "getQueue s a")
  have inv0: "act_inv s0" using inv getQueue_active[OF g] by (simp add: act_inv_def)
  show ?thesis
  proof (cases "get_property config a")
    case Undefined
    then show ?thesis using g inv0 by (simp add: processQueue_def)
  next
    case Inherited
    then show ?thesis using g inv0 by (simp add: processQueue_def)
  next
    case (Own cfg)
    then have Some: "config a = Some cfg" by (simp add: get_property_Own)
    show ?thesis
    proof (cases "length q = 0")
      case True
      then show ?thesis using g inv0 Own by (simp add: processQueue_def)
    next
      case False
      obtain q' s' clk' where l: "processQueue_loop a (maxConcurrent cfg - activeCount_of s0 a) 0 q s0 clk = (q', s', clk')"
        by (cases "processQueue_loop a (maxConcurrent cfg - activeCount_of s0 a) 0 q s0 clk")
      have r: "processQueue s a clk = s'\<lparr>queues := (queues s')(a \<mapsto> q')\<rparr>"
        using g Own False l by (simp add: processQueue_def activeCount_of_def)
      have "activeCount_of s0 a \<le> maxConcurrent cfg" "0 \<le> activeCount_of s0 a"
        using inv0 Some by (auto simp: act_inv_def)
      with loop_active[OF l, of "maxConcurrent cfg"]
      have "activeCount_of s' a \<le> maxConcurrent cfg \<and> 0 \<le> activeCount_of s' a
        \<and> (\<forall>R. R \<noteq> a \<longrightarrow> activeCount_of s' R = activeCount_of s0 R)" by simp
      with inv0 Some show ?thesis unfolding r act_inv_def
        by (metis activeCount_of_queues_upd option.inject)
    qed
  qed
qed

lemma queueRequest_act_inv: "act_inv s \<Longrightarrow> act_inv (queueRequest s a r clk)"
proof -
  assume inv: "act_inv s"
  obtain q s0 where g: "getQueue s a = (q, s0)" by (cases "getQueue s a")
  have "act_inv (s0\<lparr>queues := (queues s0)(a \<mapsto> q @ [r])\<rparr>)"
    using inv getQueue_active[OF g] by (simp add: act_inv_def)
  then show ?thesis using g by (simp add: queueRequest_def processQueue_act_inv)
qed

lemma finally_active:
  "activeCount_of (executeRequest_finally s a r) R =
     (if R = a then max 0 (activeCount_of s a - 1) else activeCount_of s R)"
  by (simp add: executeRequest_finally_def activeCount_of_def get_or_def)

lemma finally_act_inv:
  assumes "act_inv s" shows "act_inv (executeRequest_finally s a r)"
  unfolding act_inv_def
proof (intro allI conjI impI)
  fix R show "0 \<le> activeCount_of (executeRequest_finally s a r) R"
    using assms by (simp add: finally_active act_inv_def)
next
  fix R cfg assume c: "config R = Some cfg"
  have "activeCount_of s R \<le> maxConcurrent cfg" using assms c by (simp add: act_inv_def)
  moreover have "1 \<le> maxConcurrent cfg" using config_Some_cases[OF c] by simp
  ultimately show "activeCount_of (executeRequest_finally s a r) R \<le> maxConcurrent cfg"
    by (auto simp: finally_active)
qed

lemma rl_step_act_inv: "act_inv s \<Longrightarrow> act_inv (rl_step s op)"
proof (cases op)
  case (QueueRequest a r clk)
  assume "act_inv s" then show ?thesis using QueueRequest by (simp add: queueRequest_act_inv)
next
  case (Settle i)
  assume inv: "act_inv s"
  have "act_inv (s\<lparr>inflight := x\<rparr>)" for x using inv by (simp add: act_inv_def activeCount_of_def)
  then show ?thesis using Settle inv by (auto simp: finally_act_inv split: prod.splits)
next
  case (Timer a clk)
  assume "act_inv s" then show ?thesis using Timer by (simp add: processQueue_act_inv)
next
  case (CleanupHistory now)
  assume "act_inv s" then show ?thesis using CleanupHistory
    by (simp add: act_inv_def cleanupHistory_def activeCount_of_def)
next
  case Reset
  assume "act_inv s" then show ?thesis using Reset
    by (auto simp: act_inv_def reset_def activeCount_of_def get_or_def dest: config_Some_cases)
qed

lemma rl_run_act_inv: "act_inv s \<Longrightarrow> act_inv (rl_run ops s)"
  unfolding rl_run_def by (induction ops arbitrary: s) (simp_all add: rl_step_act_inv)

lemma act_inv_new: "act_inv new_RateLimiter"
  by (auto simp: act_inv_def new_RateLimiter_def activeCount_of_def get_or_def dest: config_Some_cases)


lemma executeRequest_limiter_diff:
  assumes "executeRequest_limiter s a r clk = (s', clk')" and "0 \<le> activeCount_of s a"
  shows "activeCount_of s' R - inflight_count s' R = activeCount_of s R - inflight_count s R"
  using assms
  by (auto simp: executeRequest_limiter_def executeRequest_finally_def activeCount_of_def
        inflight_count_def get_or_def Let_def split: prod.splits if_splits option.splits)

lemma executeRequest_limiter_flight:
  assumes "executeRequest_limiter s a r clk = (s', clk')" and "flight_inv s"
  shows "flight_inv s'"
proof -
  have "inflight_count s a = activeCount_of s a" using assms(2) by (simp add: flight_inv_def)
  then have nn: "0 \<le> activeCount_of s a" by (simp add: inflight_count_def)
  show ?thesis
    unfolding flight_inv_def
  proof
    fix R
    have "inflight_count s R = activeCount_of s R" using assms(2) by (simp add: flight_inv_def)
    with executeRequest_limiter_diff[OF assms(1) nn, of R]
    show "inflight_count s' R = activeCount_of s' R" by simp
  qed
qed

lemma loop_flight:
  "processQueue_loop a slots i q s clk = (q', s', clk') \<Longrightarrow> flight_inv s \<Longrightarrow> flight_inv s'"
proof (induction a slots i q s clk rule: processQueue_loop.induct)
  case (1 apiType availableSlots i queue s clk)
  show ?case
  proof (cases "int i < min availableSlots (int (length queue))")
    case False
    then have "processQueue_loop apiType availableSlots i queue s clk = (queue, s, clk)"
      by (subst processQueue_loop.simps) (simp only: if_False)
    with "1.prems" show ?thesis by simp
  next
    case True
    then obtain request rest where q: "queue = request # rest" by (cases queue) auto
    obtain s1 clk1 where e: "executeRequest_limiter s apiType request clk = (s1, clk1)"
      by (cases "executeRequest_limiter s apiType request clk")
    have "processQueue_loop apiType availableSlots i queue s clk
            = processQueue_loop apiType availableSlots (Suc i) rest s1 clk1"
      using True by (subst processQueue_loop.simps) (simp add: q e)
    with "1.prems"(1)
    have rec: "processQueue_loop apiType availableSlots (Suc i) rest s1 clk1 = (q', s', clk')"
      by simp
    from "1.IH"[OF True q e[symmetric] refl rec executeRequest_limiter_flight[OF e "1.prems"(2)]]
    show ?thesis .
  qed
qed

lemma flight_inv_queues_upd [simp]: "flight_inv (s\<lparr>queues := x\<rparr>) = flight_inv s"
  by (simp add: flight_inv_def inflight_count_def activeCount_of_def)

lemma getQueue_flight: "getQueue s a = (q, s') \<Longrightarrow> flight_inv s' = flight_inv s"
  by (auto simp: getQueue_def split: option.splits)

lemma processQueue_flight: "flight_inv s \<Longrightarrow> flight_inv (processQueue s a clk)"
proof -
  assume inv: "flight_inv s"
  obtain q s0 where g: "getQueue s a = (q, s0)" by (cases "getQueue s a")
  have inv0: "flight_inv s0" using inv getQueue_flight[OF g] by simp
  show ?thesis
  proof (cases "get_property config a")
    case Undefined
    then show ?thesis using g inv0 by (simp add: processQueue_def)
  next
    case Inherited
    then show ?thesis using g inv0 by (simp add: processQueue_def)
  next
    case (Own cfg)
    show ?thesis
    proof (cases "length q = 0")
      case True
      then show ?thesis using g inv0 Own by (simp add: processQueue_def)
    next
      case False
      obtain q' s' clk' where l: "processQueue_loop a (maxConcurrent cfg - activeCount_of s0 a) 0 q s0 clk = (q', s', clk')"
        by (cases "processQueue_loop a (maxConcurrent cfg - activeCount_of s0 a) 0 q s0 clk")
      have r: "processQueue s a clk = s'\<lparr>queues := (queues s')(a \<mapsto> q')\<rparr>"
        using g Own False l by (simp add: processQueue_def activeCount_of_def)
      show ?thesis unfolding r using loop_flight[OF l inv0] by simp
    qed
  qed
qed

lemma queueRequest_flight: "flight_inv s \<Longrightarrow> flight_inv (queueRequest s a r clk)"
proof -
  assume inv: "flight_inv s"
  obtain q s0 where g: "getQueue s a = (q, s0)" by (cases "getQueue s a")
  have "flight_inv (s0\<lparr>queues := (queues s0)(a \<mapsto> q @ [r])\<rparr>)"
    using inv getQueue_flight[OF g] by simp
  then show ?thesis using g by (simp add: queueRequest_def processQueue_flight)
qed

lemma settle_flight:
  assumes "flight_inv s" shows "flight_inv (rl_step s (Settle i))"
proof (cases "i < length (inflight s)")
  case False then show ?thesis using assms by simp
next
  case True
  obtain a r where ar: "inflight s ! i = (a, r)" by (cases "inflight s ! i")
  have split: "inflight s = take i (inflight s) @ (a, r) # drop (Suc i) (inflight s)"
    using id_take_nth_drop[OF True] ar by simp
  have cnt: "inflight_count s R =
      int (length (filter (\<lambda>(a, r). a = R) (take i (inflight s) @ drop (Suc i) (inflight s))))
        + (if R = a then 1 else 0)" for R
    unfolding inflight_count_def by (subst split) simp
  have eq: "\<And>R. inflight_count s R = activeCount_of s R" using assms by (simp add: flight_inv_def)
  show ?thesis
    unfolding flight_inv_def
  proof
    fix R
    show "inflight_count (rl_step s (Settle i)) R = activeCount_of (rl_step s (Settle i)) R"
      using True ar cnt[of R] eq[of R] cnt[of a] eq[of a]
      by (simp add: finally_active)
        (simp add: inflight_count_def executeRequest_finally_def activeCount_of_def)
  qed
qed

lemma rl_step_flight: "flight_inv s \<Longrightarrow> op \<noteq> Reset \<Longrightarrow> flight_inv (rl_step s op)"
proof (cases op)
  case (QueueRequest a r clk)
  assume "flight_inv s" then show ?thesis using QueueRequest by (simp add: queueRequest_flight)
next
  case (Settle i)
  assume "flight_inv s" then show ?thesis using Settle settle_flight by simp
next
  case (Timer a clk)
  assume "flight_inv s" then show ?thesis using Timer by (simp add: processQueue_flight)
next
  case (CleanupHistory now)
  assume "flight_inv s" then show ?thesis using CleanupHistory
    by (simp add: flight_inv_def cleanupHistory_def activeCount_of_def inflight_count_def)
next
  case Reset
  assume "op \<noteq> Reset" then show ?thesis using Reset by simp
qed

lemma rl_run_flight: "flight_inv s \<Longrightarrow> Reset \<notin> set ops \<Longrightarrow> flight_inv (rl_run ops s)"
  unfolding rl_run_def by (induction ops arbitrary: s) (auto simp: rl_step_flight)

lemma flight_inv_new: "flight_inv new_RateLimiter"
  by (simp add: flight_inv_def new_RateLimiter_def activeCount_of_def inflight_count_def get_or_def)


text \<open>
  Claim C2, as amended. For every API type \<open>R\<close> with a configured policy, after any
  sequence of operations on a new rate limiter (\<open>queueRequest\<close>, the end of a call in
  flight, a \<open>processQueue\<close> timer, \<open>cleanupHistory\<close>, \<open>reset\<close>) the count of active
  requests that the limiter keeps for \<open>R\<close> is at most \<open>maxConcurrent\<close> of \<open>R\<close>; and in
  every sequence without \<open>reset\<close>, so is the number of calls of \<open>executeRequest\<close> for
  \<open>R\<close> that have started and not ended.
\<close>

theorem admission_safety:
  assumes "config R = Some cfg"
  shows "activeCount_of (rl_run ops new_RateLimiter) R \<le> maxConcurrent cfg
     \<and> (Reset \<notin> set ops \<longrightarrow> inflight_count (rl_run ops new_RateLimiter) R \<le> maxConcurrent cfg)"
proof -
  have a: "act_inv (rl_run ops new_RateLimiter)" by (rule rl_run_act_inv[OF act_inv_new])
  then have b: "activeCount_of (rl_run ops new_RateLimiter) R \<le> maxConcurrent cfg"
    using assms by (simp add: act_inv_def)
  moreover have "inflight_count (rl_run ops new_RateLimiter) R \<le> maxConcurrent cfg"
    if "Reset \<notin> set ops"
    using rl_run_flight[OF flight_inv_new that] b by (simp add: flight_inv_def)
  ultimately show ?thesis by simp
qed

text \<open>
  Two Rewriter requests (\<open>maxConcurrent = 1\<close>) queued one after the other: one is in
  flight, the other waits in the queue.
\<close>

theorem admission_safety_witness:
  "config ''Rewriter'' = Some \<lparr>maxConcurrent = 1, minInterval = 2000, maxPerMinute = 15\<rparr>
   \<and> Reset \<notin> set two_rewriter_ops
   \<and> activeCount_of (rl_run two_rewriter_ops new_RateLimiter) ''Rewriter'' \<le> 1
   \<and> inflight_count (rl_run two_rewriter_ops new_RateLimiter) ''Rewriter'' \<le> 1
   \<and> inflight_count (rl_run two_rewriter_ops new_RateLimiter) ''Rewriter'' = 1"
proof -
  have c: "config ''Rewriter'' = Some \<lparr>maxConcurrent = 1, minInterval = 2000, maxPerMinute = 15\<rparr>"
    by (simp add: config_def)
  have r: "Reset \<notin> set two_rewriter_ops" by (simp add: two_rewriter_ops_def)
  have e: "inflight_count (rl_run two_rewriter_ops new_RateLimiter) ''Rewriter'' = 1" by code_simp
  from admission_safety[OF c, of two_rewriter_ops] c r e show ?thesis by simp
qed

text \<open>
  The claim as it stands fails when \<open>reset\<close> is called while a call is in flight: it
  clears the count, the call goes on, and the next request is started beside it. For
  Rewriter (\<open>maxConcurrent = 1\<close>) two executions are then in flight and the count is 1.
\<close>

theorem reset_overlap_counterexample:
  "config ''Rewriter'' = Some \<lparr>maxConcurrent = 1, minInterval = 2000, maxPerMinute = 15\<rparr>
   \<and> inflight_count (rl_run reset_overlap_ops new_RateLimiter) ''Rewriter'' = 2
   \<and> activeCount_of (rl_run reset_overlap_ops new_RateLimiter) ''Rewriter'' = 1"
  by code_simp

subsection \<open>The admission test\<close>

text \<open>
  Claim C5, as amended. For every API type \<open>R\<close> with a configured policy and every state,
  \<open>canMakeRequest\<close> is true if and only if the count of active requests is below
  \<open>maxConcurrent\<close>, at least \<open>minInterval\<close> has passed since the last request (time 0
  when there was none), and fewer than \<open>maxPerMinute\<close> recorded timestamps are later than
  \<open>now - 60000\<close>.
\<close>

theorem canMakeRequest_iff:
  assumes "config R = Some cfg"
  shows "canMakeRequest s R now \<longleftrightarrow>
     (activeCount_of s R < maxConcurrent cfg
      \<and> now - get_or (lastRequestTime s) R 0 \<ge> minInterval cfg
      \<and> recent_count s R now < maxPerMinute cfg)"
  using assms
  by (auto simp: canMakeRequest_def get_property_def activeCount_of_def recent_count_def Let_def)

theorem canMakeRequest_iff_witness:
  "config ''Proofreader'' = Some \<lparr>maxConcurrent = 1, minInterval = 2000, maxPerMinute = 10\<rparr>
   \<and> (canMakeRequest boundary_state ''Proofreader'' 100000 \<longleftrightarrow>
     (activeCount_of boundary_state ''Proofreader'' < 1
      \<and> 100000 - get_or (lastRequestTime boundary_state) ''Proofreader'' 0 \<ge> 2000
      \<and> recent_count boundary_state ''Proofreader'' 100000 < 10))"
  using canMakeRequest_iff[of "''Proofreader''"
      "\<lparr>maxConcurrent = 1, minInterval = 2000, maxPerMinute = 10\<rparr>" boundary_state 100000]
  by (simp add: config_def)

text \<open>
  The claim as it stands, with the closed window, fails where a timestamp lies exactly
  60000 ms back: after ten Proofreader requests at 40000, 42000, ..., 58000, at time 100000
  the code counts nine recent requests and admits, while the closed window holds ten.
\<close>

theorem closed_window_counterexample:
  "canMakeRequest boundary_state ''Proofreader'' 100000
   \<and> \<not> spec_CanAdmit boundary_state \<lparr>maxConcurrent = 1, minInterval = 2000, maxPerMinute = 10\<rparr>
         ''Proofreader'' 100000"
  by code_simp

subsection \<open>API types without a policy\<close>

lemma executeRequest_limiter_log:
  assumes "executeRequest_limiter s a r clk = (s', clk')" and "only_configured_admitted s"
    and "a \<in> set configuredTypes"
  shows "only_configured_admitted s'"
proof -
  have "set (rl_log s')
          \<subseteq> set (rl_log s) \<union> {Admission a (req_id r), Completion a (req_id r)}"
    using assms(1)
    by (auto simp: executeRequest_limiter_def executeRequest_finally_def Let_def
          split: prod.splits if_splits)
  then show ?thesis using assms(2,3) unfolding only_configured_admitted_def by blast
qed

lemma loop_log:
  "processQueue_loop a slots i q s clk = (q', s', clk') \<Longrightarrow> a \<in> set configuredTypes \<Longrightarrow>
   only_configured_admitted s \<Longrightarrow> only_configured_admitted s'"
proof (induction a slots i q s clk rule: processQueue_loop.induct)
  case (1 apiType availableSlots i queue s clk)
  show ?case
  proof (cases "int i < min availableSlots (int (length queue))")
    case False
    then have "processQueue_loop apiType availableSlots i queue s clk = (queue, s, clk)"
      by (subst processQueue_loop.simps) (simp only: if_False)
    with "1.prems" show ?thesis by simp
  next
    case True
    then obtain request rest where q: "queue = request # rest" by (cases queue) auto
    obtain s1 clk1 where e: "executeRequest_limiter s apiType request clk = (s1, clk1)"
      by (cases "executeRequest_limiter s apiType request clk")
    have "processQueue_loop apiType availableSlots i queue s clk
            = processQueue_loop apiType availableSlots (Suc i) rest s1 clk1"
      using True by (subst processQueue_loop.simps) (simp add: q e)
    with "1.prems"(1)
    have rec: "processQueue_loop apiType availableSlots (Suc i) rest s1 clk1 = (q', s', clk')"
      by simp
    from "1.IH"[OF True q e[symmetric] refl rec "1.prems"(2)
                   executeRequest_limiter_log[OF e "1.prems"(3,2)]]
    show ?thesis .
  qed
qed

lemma only_configured_admitted_queues_upd [simp]:
  "only_configured_admitted (s\<lparr>queues := x\<rparr>) = only_configured_admitted s"
  by (simp add: only_configured_admitted_def)

lemma getQueue_log: "getQueue s a = (q, s') \<Longrightarrow> only_configured_admitted s' = only_configured_admitted s"
  by (auto simp: getQueue_def split: option.splits)

lemma processQueue_log: "only_configured_admitted s \<Longrightarrow> only_configured_admitted (processQueue s a clk)"
proof -
  assume inv: "only_configured_admitted s"
  obtain q s0 where g: "getQueue s a = (q, s0)" by (cases "getQueue s a")
  have inv0: "only_configured_admitted s0" using inv getQueue_log[OF g] by simp
  show ?thesis
  proof (cases "get_property config a")
    case Undefined
    then show ?thesis using g inv0 by (simp add: processQueue_def)
  next
    case Inherited
    then show ?thesis using g inv0 by (simp add: processQueue_def)
  next
    case (Own cfg)
    then have a: "a \<in> set configuredTypes"
      using config_None_iff[of a] by (simp add: get_property_Own)
    show ?thesis
    proof (cases "length q = 0")
      case True
      then show ?thesis using g inv0 Own by (simp add: processQueue_def)
    next
      case False
      obtain q' s' clk' where l: "processQueue_loop a (maxConcurrent cfg - activeCount_of s0 a) 0 q s0 clk = (q', s', clk')"
        by (cases "processQueue_loop a (maxConcurrent cfg - activeCount_of s0 a) 0 q s0 clk")
      have r: "processQueue s a clk = s'\<lparr>queues := (queues s')(a \<mapsto> q')\<rparr>"
        using g Own False l by (simp add: processQueue_def activeCount_of_def)
      show ?thesis unfolding r using loop_log[OF l a inv0] by simp
    qed
  qed
qed

lemma queueRequest_log:
  "only_configured_admitted s \<Longrightarrow> only_configured_admitted (queueRequest s a r clk)"
proof -
  assume inv: "only_configured_admitted s"
  obtain q s0 where g: "getQueue s a = (q, s0)" by (cases "getQueue s a")
  have "only_configured_admitted (s0\<lparr>queues := (queues s0)(a \<mapsto> q @ [r])\<rparr>)"
    using inv getQueue_log[OF g] by simp
  then show ?thesis using g by (simp add: queueRequest_def processQueue_log)
qed

lemma rl_step_log: "only_configured_admitted s \<Longrightarrow> only_configured_admitted (rl_step s op)"
proof (cases op)
  case (QueueRequest a r clk)
  assume "only_configured_admitted s" then show ?thesis using QueueRequest by (simp add: queueRequest_log)
next
  case (Settle i)
  assume "only_configured_admitted s" then show ?thesis using Settle
    by (auto simp: only_configured_admitted_def executeRequest_finally_def split: prod.splits)
next
  case (Timer a clk)
  assume "only_configured_admitted s" then show ?thesis using Timer by (simp add: processQueue_log)
next
  case (CleanupHistory now)
  assume "only_configured_admitted s" then show ?thesis using CleanupHistory
    by (simp add: only_configured_admitted_def cleanupHistory_def)
next
  case Reset
  assume "only_configured_admitted s" then show ?thesis using Reset
    by (simp add: only_configured_admitted_def reset_def)
qed

lemma rl_run_log: "only_configured_admitted s \<Longrightarrow> only_configured_admitted (rl_run ops s)"
  unfolding rl_run_def by (induction ops arbitrary: s) (simp_all add: rl_step_log)

lemma queueRequest_Undefined:
  assumes "get_property config R = Undefined"
  shows "queueRequest s R r clk = s\<lparr>queues := (queues s)(R \<mapsto> get_or (queues s) R [] @ [r])\<rparr>"
proof (cases "queues s R")
  case None
  then show ?thesis using assms
    by (simp add: queueRequest_def processQueue_def getQueue_def get_or_def)
next
  case (Some q)
  then show ?thesis using assms
    by (simp add: queueRequest_def processQueue_def getQueue_def get_or_def)
qed

text \<open>
  Claim C10, as amended. For every name that is neither one of the six configured API types
  nor the name of a member of \<open>Object.prototype\<close>, in every state and at every time
  \<open>canMakeRequest\<close> is true and \<open>getWaitTime\<close> is 0, so that a caller who asks these two
  is never made to wait. The limiter's own queue admits no request of such a type:
  \<open>queueRequest\<close> appends the request to the queue of the type and changes nothing
  else, and no sequence of operations on a new limiter ever starts such a request.
\<close>

theorem unconfigured_unlimited:
  assumes "R \<notin> set configuredTypes" and "R \<notin> set objectPrototypeKeys"
  shows "canMakeRequest s R now \<and> getWaitTime s R now = Some 0
     \<and> queueRequest s R r clk = s\<lparr>queues := (queues s)(R \<mapsto> get_or (queues s) R [] @ [r])\<rparr>
     \<and> \<not> admitted (rl_run ops new_RateLimiter) R n"
proof -
  have u: "get_property config R = Undefined"
    using assms by (simp add: get_property_Undefined config_None_iff)
  have "only_configured_admitted (rl_run ops new_RateLimiter)"
    by (rule rl_run_log) (simp add: only_configured_admitted_def new_RateLimiter_def)
  then have "\<not> admitted (rl_run ops new_RateLimiter) R n"
    using assms(1) by (auto simp: only_configured_admitted_def admitted_def)
  then show ?thesis using u queueRequest_Undefined[OF u, of s r clk]
    by (simp add: canMakeRequest_def getWaitTime_def)
qed

text \<open>\<open>'Prompt'\<close> is such a name; multimodal-analyzer.js passes it.\<close>

theorem unconfigured_unlimited_witness:
  "''Prompt'' \<notin> set configuredTypes \<and> ''Prompt'' \<notin> set objectPrototypeKeys
   \<and> canMakeRequest boundary_state ''Prompt'' 100000
   \<and> getWaitTime boundary_state ''Prompt'' 100000 = Some 0
   \<and> queues (queueRequest boundary_state ''Prompt'' (rl_request_of 1) (100000, [])) ''Prompt''
       = Some (get_or (queues boundary_state) ''Prompt'' [] @ [rl_request_of 1])
   \<and> inflight (queueRequest boundary_state ''Prompt'' (rl_request_of 1) (100000, []))
       = inflight boundary_state
   \<and> \<not> admitted (rl_run [QueueRequest ''Prompt'' (rl_request_of 1) (5000, [])] new_RateLimiter)
          ''Prompt'' 1"
  using unconfigured_unlimited[of "''Prompt''" boundary_state 100000 "rl_request_of 1"
          "(100000, [])" "[QueueRequest ''Prompt'' (rl_request_of 1) (5000, [])]" 1]
  by (simp add: configuredTypes_def objectPrototypeKeys_def)

text \<open>
  The claim as it stands fails twice. For the name of a member of \<open>Object.prototype\<close>
  the guard \<open>if (!config)\<close> does not fire and \<open>getWaitTime\<close> is \<open>NaN\<close>. And a request of
  an unconfigured type handed to \<open>queueRequest\<close> is not admitted at once: it stays in
  the queue, and nothing is in flight.
\<close>

theorem inherited_name_counterexample:
  "''constructor'' \<notin> set configuredTypes
   \<and> getWaitTime new_RateLimiter ''constructor'' 100000 = None
   \<and> ''Prompt'' \<notin> set configuredTypes
   \<and> queues (queueRequest new_RateLimiter ''Prompt'' (rl_request_of 1) (5000, [])) ''Prompt''
       = Some [rl_request_of 1]
   \<and> inflight (queueRequest new_RateLimiter ''Prompt'' (rl_request_of 1) (5000, [])) = []"
  by code_simp

section \<open>Properties of the error classifier\<close>

text \<open>
  A literal under \<open>test\<close> is containment as a contiguous substring, ignoring ASCII case,
  and an alternation of literals is the disjunction of these.
\<close>

lemma lit_match_Some_iff:
  "lit_match p s \<noteq> None \<longleftrightarrow> prefix (map canonicalize p) (map canonicalize s)"
  by (induction p s rule: lit_match.induct) auto

lemma rx_test_Lit: "rx_test (Lit p) m \<longleftrightarrow> contains_ci p m"
proof (induction m)
  case Nil
  show ?case by (cases p) (simp_all add: contains_ci_def)
next
  case (Cons c cs)
  have "rx_match (Lit p) (c # cs) \<noteq> [] \<longleftrightarrow> prefix (map canonicalize p) (map canonicalize (c # cs))"
    using lit_match_Some_iff[of p "c # cs"] by (cases "lit_match p (c # cs)") auto
  with Cons show ?case
    by (simp add: contains_ci_def sublist_Cons_right del: rx_match.simps)
qed

lemma rx_test_Alt: "rx_test (Alt a b) m \<longleftrightarrow> rx_test a m \<or> rx_test b m"
  by (induction m) auto

lemma rx_test_alternatives: "ws \<noteq> [] \<Longrightarrow> rx_test (alternatives ws) m \<longleftrightarrow> any_word ws m"
proof (induction ws rule: alternatives.induct)
  case 1 then show ?case by simp
next
  case (2 p) show ?case by (simp add: rx_test_Lit any_word_def del: rx_test.simps)
next
  case (3 p v va)
  then show ?case by (simp add: rx_test_Alt rx_test_Lit any_word_def del: rx_test.simps)
qed


lemma classify_Plain:
  "classify (Plain m str)
     = Inr (EnhancedError (raw_message m str) (first_match precedence (raw_message m str)))"
proof -
  have w: "rateLimitWords \<noteq> []" "networkWords \<noteq> []" "timeoutWords \<noteq> []" "validationWords \<noteq> []"
    by (simp_all add: rateLimitWords_def networkWords_def timeoutWords_def validationWords_def)
  show ?thesis
    unfolding classify_def precedence_def
    by (simp add: truthy_def Let_def rx_test_alternatives[OF w(1)] rx_test_alternatives[OF w(2)]
        rx_test_alternatives[OF w(3)] rx_test_alternatives[OF w(4)] del: rx_test.simps)
qed

text \<open>
  Claim C4, as amended. \<open>classify\<close> is a deterministic function of its argument, and it
  returns for every value but one whose conversion to a string throws: then it throws what
  the conversion throws. A value that is already an \<open>EnhancedError\<close> is returned as it
  is, whatever its message; a falsy value gives \<open>UNKNOWN\<close> with the message
  \<open>Unknown error\<close>; for every other value the kind is the first, in the order
  \<open>RATE_LIMIT\<close>, \<open>NETWORK_ERROR\<close>, \<open>TIMEOUT\<close>, \<open>VALIDATION\<close>, \<open>AI_UNAVAILABLE\<close>, whose
  case-insensitive test the raw message passes, and \<open>UNKNOWN\<close> when it passes none; the
  message is kept.
\<close>

theorem classify_by_precedence:
  "classify e =
     (case e of
        Enhanced x \<Rightarrow> Inr x
      | Plain m str \<Rightarrow>
          Inr (EnhancedError (raw_message m str) (first_match precedence (raw_message m str)))
      | Unprintable thrown \<Rightarrow> Inl thrown
      | _ \<Rightarrow> Inr (EnhancedError (js ''Unknown error'') UNKNOWN))"
proof (cases e)
  case (Plain m str)
  then show ?thesis by (simp add: classify_Plain)
qed (simp_all add: classify_def truthy_def)


text \<open>The first test of enhanced-error-handler.test.js, and a message that two kinds match.\<close>

theorem classify_by_precedence_witness:
  "classify (Plain (js ''429 Too Many Requests: rate limit'')
                   (js ''Error: 429 Too Many Requests: rate limit''))
     = Inr (EnhancedError (js ''429 Too Many Requests: rate limit'') RATE_LIMIT)
   \<and> classify (Plain (js ''Operation timed out after a network failure'') (js ''Error''))
     = Inr (EnhancedError (js ''Operation timed out after a network failure'') NETWORK_ERROR)"
proof -
  have f: "first_match precedence (js ''429 Too Many Requests: rate limit'') = RATE_LIMIT"
    "first_match precedence (js ''Operation timed out after a network failure'') = NETWORK_ERROR"
    by code_simp+
  have n: "js ''429 Too Many Requests: rate limit'' \<noteq> []"
    "js ''Operation timed out after a network failure'' \<noteq> []"
    by (simp_all add: js_def)
  from classify_by_precedence[of "Plain (js ''429 Too Many Requests: rate limit'')
                                        (js ''Error: 429 Too Many Requests: rate limit'')"]
       classify_by_precedence[of "Plain (js ''Operation timed out after a network failure'')
                                        (js ''Error'')"]
       f n
  show ?thesis by (simp add: raw_message_def)
qed

text \<open>
  The claim as it stands fails in two ways. \<open>classify\<close> is not total: for a truthy value
  that has no conversion to a string it throws. And a value that carries \<open>isEnhanced\<close>
  keeps its kind, although the first match over its message is another.
\<close>

theorem classify_throws_counterexample:
  "classify no_prototype_object
     = Inl (Plain (js ''Cannot convert object to primitive value'')
                  (js ''TypeError: Cannot convert object to primitive value''))
   \<and> classify (Enhanced (EnhancedError (js ''rate limit exceeded'') VALIDATION))
     = Inr (EnhancedError (js ''rate limit exceeded'') VALIDATION)
   \<and> first_match precedence (js ''rate limit exceeded'') = RATE_LIMIT"
  by code_simp


text \<open>
  \<open>.\<close> stops at a line terminator, U+2028 among them: \<open>ai\<close> and \<open>disabled\<close> on two
  lines do not make the fifth kind.
\<close>

lemma classify_line_terminator:
  "classify (Plain (js ''ai'' @ 0x2028 # js ''disabled'') [])
     = Inr (EnhancedError (js ''ai'' @ 0x2028 # js ''disabled'') UNKNOWN)"
  "classify (Plain (js ''ai'' @ 0x20 # js ''disabled'') [])
     = Inr (EnhancedError (js ''ai'' @ 0x20 # js ''disabled'') AI_UNAVAILABLE)"
proof -
  have f: "first_match precedence (js ''ai'' @ 0x2028 # js ''disabled'') = UNKNOWN"
    "first_match precedence (js ''ai'' @ 0x20 # js ''disabled'') = AI_UNAVAILABLE"
    by code_simp+
  show "classify (Plain (js ''ai'' @ 0x2028 # js ''disabled'') [])
     = Inr (EnhancedError (js ''ai'' @ 0x2028 # js ''disabled'') UNKNOWN)"
    "classify (Plain (js ''ai'' @ 0x20 # js ''disabled'') [])
     = Inr (EnhancedError (js ''ai'' @ 0x20 # js ''disabled'') AI_UNAVAILABLE)"
    by (simp_all add: classify_Plain f raw_message_def)
qed

text \<open>The messages of enhanced-error-handler.test.js.\<close>

lemma classify_repository_tests:
  "first_match precedence (js ''NetworkError: Failed to fetch'') = NETWORK_ERROR"
  "first_match precedence (js ''Operation timed out'') = TIMEOUT"
  "first_match precedence (js ''Invalid input'') = VALIDATION"
  "first_match precedence (js ''AI unavailable on this device'') = AI_UNAVAILABLE"
  by code_simp+

lemma retryable_truthy: "classify e = Inr x \<Longrightarrow> shouldRetry x \<Longrightarrow> truthy e"
  by (cases e) (auto simp: classify_def truthy_def shouldRetry_def EnhancedError_def)

lemma backoffDelayMs_caps:
  "backoffDelayMs (EnhancedError m RATE_LIMIT) attempt baseMs jitter
     = min 10000 (baseMs * 2 ^ attempt) + jitter"
  "backoffDelayMs (EnhancedError m TIMEOUT) attempt baseMs jitter
     = min 5000 (baseMs * 2 ^ attempt) + jitter"
  "backoffDelayMs (EnhancedError m NETWORK_ERROR) attempt baseMs jitter
     = min 5000 (baseMs * 2 ^ attempt) + jitter"
  by (simp_all add: backoffDelayMs_def EnhancedError_def)

section \<open>Properties of the performance monitor\<close>

lemma measureOperation_end_cases:
  "fst (measureOperation_end pm n r ms opts) =
     (case r of Pending \<Rightarrow> Pending | Returned v \<Rightarrow> Returned v
      | Threw e \<Rightarrow> if e = Nullish then Threw TypeError_reading_message
                   else if truthy e then Threw e else Returned None)"
  by (simp add: measureOperation_end_def Let_def split: outcome.splits)

lemma measureOperation_settles:
  "settles r \<Longrightarrow> settles (fst (measureOperation pm n r ms opts))"
  by (simp add: measureOperation_def measureOperation_end_cases settles_def split: outcome.splits)


lemma measureOperation_end_truthy:
  "truthy e \<Longrightarrow> fst (measureOperation_end pm n (Threw e) ms opts) = Threw e"
  by (auto simp: measureOperation_end_def truthy_def Let_def)

lemma measureOperation_end_never_falsy:
  "fst (measureOperation_end pm n r ms opts) = Threw e \<Longrightarrow> truthy e"
  by (auto simp: measureOperation_end_def truthy_def TypeError_reading_message_def Let_def
      split: outcome.splits if_splits)

lemma recordOperation_metrics:
  "\<exists>a. metrics (recordOperation pm n m now) n = Some a
      \<and> count a = (case metrics pm n of None \<Rightarrow> 0 | Some a0 \<Rightarrow> count a0) + 1
      \<and> successCount a = (case metrics pm n of None \<Rightarrow> 0 | Some a0 \<Rightarrow> successCount a0)
                           + (if success m then 1 else 0)
      \<and> failureCount a = (case metrics pm n of None \<Rightarrow> 0 | Some a0 \<Rightarrow> failureCount a0)
                           + (if success m then 0 else 1)"
  by (simp add: recordOperation_def updateAggregatedMetrics_def new_aggregated_def Let_def
      split: option.splits)

lemma recordOperation_history:
  "operationHistory (recordOperation pm n m now) \<noteq> []
   \<and> last (operationHistory (recordOperation pm n m now)) = (n, m\<lparr>timestamp := now\<rparr>)"
  by (simp add: recordOperation_def updateAggregatedMetrics_def maxHistorySize_def Let_def)

lemma measureOperation_settled:
  assumes "truthy e"
  shows "measureOperation pm n (Returned v) ms opts =
           (Returned v,
            removeActiveOperation
              (recordOperation (addActiveOperation pm n (startTime ms)) n
                 \<lparr>duration = elapsed ms, memoryDelta = memDelta ms, success = True,
                  error_msg = None, timestamp = startTime ms, options = opts\<rparr> (recordedAt ms))
              n (startTime ms))"
    and "measureOperation pm n (Threw e) ms opts =
           (Threw e,
            removeActiveOperation
              (recordOperation (addActiveOperation pm n (startTime ms)) n
                 \<lparr>duration = elapsed ms, memoryDelta = memDelta ms, success = False,
                  error_msg = message_of e, timestamp = startTime ms, options = opts\<rparr> (recordedAt ms))
              n (startTime ms))"
  using assms
  by (auto simp: measureOperation_def measureOperation_end_def measureOperation_begin_def
      truthy_def Let_def)

lemma removeActiveOperation_fields [simp]:
  "metrics (removeActiveOperation pm n t) = metrics pm"
  "operationHistory (removeActiveOperation pm n t) = operationHistory pm"
  by (simp_all add: removeActiveOperation_def)

lemma addActiveOperation_fields [simp]:
  "metrics (addActiveOperation pm n t) = metrics pm"
  "operationHistory (addActiveOperation pm n t) = operationHistory pm"
  by (simp_all add: addActiveOperation_def)

lemma measureOperation_observes:
  assumes "truthy e"
  shows "fst (measureOperation pm n (Threw e) ms opts) = Threw e
     \<and> (\<exists>a. metrics (snd (measureOperation pm n (Threw e) ms opts)) n = Some a
          \<and> count a = (case metrics pm n of None \<Rightarrow> 0 | Some a0 \<Rightarrow> count a0) + 1
          \<and> failureCount a = (case metrics pm n of None \<Rightarrow> 0 | Some a0 \<Rightarrow> failureCount a0) + 1)
     \<and> operationHistory (snd (measureOperation pm n (Threw e) ms opts)) \<noteq> []
     \<and> fst (last (operationHistory (snd (measureOperation pm n (Threw e) ms opts)))) = n
     \<and> \<not> success (snd (last (operationHistory (snd (measureOperation pm n (Threw e) ms opts)))))"
proof -
  let ?m = "\<lparr>duration = elapsed ms, memoryDelta = memDelta ms, success = False,
                  error_msg = message_of e, timestamp = startTime ms, options = opts\<rparr>"
  let ?pm = "addActiveOperation pm n (startTime ms)"
  from recordOperation_metrics[of ?pm n ?m "recordedAt ms"]
  obtain a where a: "metrics (recordOperation ?pm n ?m (recordedAt ms)) n = Some a"
    "count a = (case metrics pm n of None \<Rightarrow> 0 | Some a0 \<Rightarrow> count a0) + 1"
    "failureCount a = (case metrics pm n of None \<Rightarrow> 0 | Some a0 \<Rightarrow> failureCount a0) + 1"
    by auto
  show ?thesis
    using a recordOperation_history[of ?pm n ?m "recordedAt ms"]
    by (simp add: measureOperation_settled(2)[OF assms])
qed


text \<open>
  Claim C9, at the inputs where the code departs from it. When \<open>fn\<close> rejects with a falsy
  value other than \<open>undefined\<close> and \<open>null\<close>, \<open>measureOperation\<close> returns \<open>undefined\<close>
  as if \<open>fn\<close> had succeeded; when it rejects with \<open>undefined\<close> or \<open>null\<close>, nothing
  is recorded and a TypeError is raised in place of the value. (For a truthy error the lemma
  \<open>measureOperation_observes\<close> above gives what the claim says.)
\<close>

theorem falsy_rejection_swallowed:
  "fst (measureOperation new_PerformanceMonitor ''op'' (Threw Falsy :: js_value outcome) a_measurement [])
     = Returned None
   \<and> fst (measureOperation new_PerformanceMonitor ''op'' (Threw Nullish :: js_value outcome) a_measurement [])
     = Threw TypeError_reading_message
   \<and> operationHistory (snd (measureOperation new_PerformanceMonitor ''op''
        (Threw Nullish :: js_value outcome) a_measurement [])) = []
   \<and> metrics (snd (measureOperation new_PerformanceMonitor ''op''
        (Threw Nullish :: js_value outcome) a_measurement [])) ''op'' = None"
  by (simp add: measureOperation_def measureOperation_end_def measureOperation_begin_def
      new_PerformanceMonitor_def truthy_def removeActiveOperation_def addActiveOperation_def
      recordOperation_def updateAggregatedMetrics_def Let_def)


section \<open>Properties of the request queue\<close>

lemma recordRequest_fields [simp]:
  "queue (recordRequest s r st now) = queue s"
  "processing (recordRequest s r st now) = processing s"
  "timers (recordRequest s r st now) = timers s"
  "settled (recordRequest s r st now) = settled s"
  "requestFn_calls (recordRequest s r st now) = requestFn_calls s"
  "loop (recordRequest s r st now) = loop s"
  "retryDelay (recordRequest s r st now) = retryDelay s"
  "maxRetries_default (recordRequest s r st now) = maxRetries_default s"
  "performanceMonitor (recordRequest s r st now) = performanceMonitor s"
  by (simp_all add: recordRequest_def Let_def)

lemma begin_fields:
  "executeRequest_begin s r now = (s', r') \<Longrightarrow>
     queue s' = queue s \<and> processing s' = processing s \<and> timers s' = timers s
     \<and> settled s' = settled s \<and> requestFn_calls s' = requestFn_calls s @ [rid r]
     \<and> loop s' = loop s \<and> retryDelay s' = retryDelay s \<and> maxRetries_default s' = maxRetries_default s
     \<and> r' = r\<lparr>status := St_processing, attempts := attempts r + 1, startedAt := Some now\<rparr>"
  by (auto simp: executeRequest_begin_def Let_def)

lemma end_fields:
  "queue (executeRequest_end s r rr ms now) = queue s"
  "processing (executeRequest_end s r rr ms now) = processing s"
  "loop (executeRequest_end s r rr ms now) = loop s"
  "requestFn_calls (executeRequest_end s r rr ms now) = requestFn_calls s"
  "retryDelay (executeRequest_end s r rr ms now) = retryDelay s"
  "maxRetries_default (executeRequest_end s r rr ms now) = maxRetries_default s"
  by (auto simp: executeRequest_end_def Let_def split: prod.splits outcome.splits)

lemma end_failure:
  assumes "truthy e"
  shows "timers (executeRequest_end s r (FnThrew e) ms now) =
           (if attempts r < maxRetries r
            then timers s @ [(retryDelay s * attempts r, failed_request r e now)] else timers s)"
    and "settled (executeRequest_end s r (FnThrew e) ms now) =
           (if attempts r < maxRetries r then settled s else settled s @ [(rid r, Rejected e)])"
proof -
  obtain pm' where m: "measureOperation_end (performanceMonitor s) (monitor_name r)
       (Threw e :: js_value outcome) (started_at r ms)
       [(''requestId'', Num (int (rid r))), (''priority'', Str (priorityName r)),
        (''attempt'', Num (attempts r))] = (Threw e, pm')"
    using measureOperation_end_truthy[OF assms] by (metis prod.collapse)
  show "timers (executeRequest_end s r (FnThrew e) ms now) =
           (if attempts r < maxRetries r
            then timers s @ [(retryDelay s * attempts r, failed_request r e now)] else timers s)"
    by (simp add: executeRequest_end_def race_outcome_def failed_request_def Let_def m)
  show "settled (executeRequest_end s r (FnThrew e) ms now) =
           (if attempts r < maxRetries r then settled s else settled s @ [(rid r, Rejected e)])"
    by (simp add: executeRequest_end_def race_outcome_def failed_request_def Let_def m)
qed


subsection \<open>Order of service\<close>

lemma new_request_numeric:
  "plain_add (Add opts new_id now) \<Longrightarrow> priority (new_request s opts new_id now) \<noteq> None"
  by (auto simp: plain_add_def new_request_def get_property_def priorityLevels_def Let_def
      split: option.splits)

lemma push_and_sort_numeric:
  "numeric q \<Longrightarrow> priority r \<noteq> None \<Longrightarrow> push_and_sort q r = sort_key rank (q @ [r])"
  by (simp add: push_and_sort_def numeric_def)

lemma numeric_sort_key: "numeric (sort_key f xs) = numeric xs"
  by (simp add: numeric_def list_all_iff)

lemma numeric_tl: "numeric xs \<Longrightarrow> numeric (tl xs)"
  by (cases xs) (simp_all add: numeric_def)

lemma sorted_tl_map: "sorted (map f xs) \<Longrightarrow> sorted (map f (tl xs))"
  by (cases xs) auto

lemma subseq_tl_filter:
  "subseq (map f (filter P xs)) ys \<Longrightarrow> subseq (map f (filter P (tl xs))) ys"
proof -
  assume a: "subseq (map f (filter P xs)) ys"
  have "subseq (tl xs) xs" by (cases xs) auto
  then have "subseq (map f (filter P (tl xs))) (map f (filter P xs))"
    by (intro subseq_map subseq_filter)
  then show ?thesis using a by (rule subseq_order.trans)
qed

lemma queue_take_next: "queue (take_next s now) = tl (queue s)"
  by (cases "queue s") (auto simp: take_next_def executeRequest_begin_def Let_def)

lemma queue_process: "queue (process s now) = (if processing s then queue s else tl (queue s))"
  by (simp add: process_def queue_take_next)

lemma take_next_head:
  assumes "queue s = x # rest"
  shows "loop (take_next s now) = Executing (begun x now)"
    and "requestFn_calls (take_next s now) = requestFn_calls s @ [rid x]"
    and "queue (take_next s now) = rest"
  using assms by (simp_all add: take_next_def executeRequest_begin_def begun_def Let_def)

text \<open>
  What the order of the queue rests on: every priority is a number, the ranks ascend, and
  the requests of one rank stand in the order in which they were added.
\<close>

lemma q_step_order:
  assumes "numeric (queue s)" and "sorted (map rank (queue s))"
    and "\<forall>p. subseq (map rid [y \<leftarrow> queue s. rank y = p]) ids"
    and "plain_add op" and "\<not> is_TimerFire op"
  shows "numeric (queue (q_step s op)) \<and> sorted (map rank (queue (q_step s op)))
     \<and> (\<forall>p. subseq (map rid [y \<leftarrow> queue (q_step s op). rank y = p]) (ids @ added_id op))"
proof (cases op)
  case (Add opts new_id now)
  define r where "r = new_request s opts new_id now"
  define q' where "q' = push_and_sort (queue s) r"
  have n: "priority r \<noteq> None" using assms(4) unfolding Add r_def by (rule new_request_numeric)
  have q': "q' = sort_key rank (queue s @ [r])"
    unfolding q'_def using assms(1) n by (rule push_and_sort_numeric)
  have rr: "rid r = new_id" by (simp add: r_def new_request_def Let_def)
  have 1: "numeric q'" using assms(1) n by (simp add: q' numeric_sort_key) (simp add: numeric_def)
  have 2: "sorted (map rank q')" by (simp add: q')
  have 3: "subseq (map rid [y \<leftarrow> q'. rank y = p]) (ids @ [new_id])" for p
  proof -
    have "[y \<leftarrow> q'. rank y = p] = [y \<leftarrow> queue s @ [r]. rank y = p]"
      unfolding q' by (rule sort_key_stable)
    moreover have "subseq (map rid [y \<leftarrow> queue s. rank y = p] @ map rid [y \<leftarrow> [r]. rank y = p])
                     (ids @ [new_id])"
      using assms(3) by (intro list_emb_append_mono) (simp_all add: rr)
    ultimately show ?thesis by simp
  qed
  have q: "queue (q_step s op) = (if processing s then q' else tl q')"
    unfolding Add by (simp add: add_def Let_def queue_process r_def q'_def)
  show ?thesis
  proof (cases "processing s")
    case True
    then show ?thesis using 1 2 3 q by (simp add: Add added_id_def)
  next
    case False
    then show ?thesis using numeric_tl[OF 1] sorted_tl_map[OF 2] subseq_tl_filter[OF 3] q
      by (simp add: Add added_id_def)
  qed
next
  case (Finish rr ms now)
  then show ?thesis using assms(1,2,3)
    by (simp add: end_fields Let_def added_id_def numeric_def split: loop_state.splits)
next
  case (Wake now)
  show ?thesis
  proof (cases "loop s = Sleeping")
    case True
    then have "queue (q_step s op) = tl (queue s)" by (simp add: Wake queue_take_next)
    moreover have "subseq (map rid [y \<leftarrow> tl (queue s). rank y = p]) ids" for p
      using assms(3) by (intro subseq_tl_filter) simp
    ultimately show ?thesis
      using numeric_tl[OF assms(1)] sorted_tl_map[OF assms(2)]
      by (simp add: Wake added_id_def)
  next
    case False
    then have "q_step s op = s" by (simp add: Wake split: loop_state.splits)
    then show ?thesis using assms(1,2,3) by (simp add: Wake added_id_def)
  qed
next
  case (TimerFire i now)
  then show ?thesis using assms(5) by (simp add: is_TimerFire_def)
qed

lemma q_run_order:
  "numeric (queue s) \<Longrightarrow> sorted (map rank (queue s)) \<Longrightarrow>
   \<forall>p. subseq (map rid [y \<leftarrow> queue s. rank y = p]) ids \<Longrightarrow>
   list_all plain_add ops \<Longrightarrow> \<not> list_ex is_TimerFire ops \<Longrightarrow>
   numeric (queue (q_run ops s)) \<and> sorted (map rank (queue (q_run ops s)))
     \<and> (\<forall>p. subseq (map rid [y \<leftarrow> queue (q_run ops s). rank y = p]) (ids @ added_ids ops))"
proof (induction ops arbitrary: s ids)
  case Nil
  then show ?case by (simp add: q_run_def added_ids_def)
next
  case (Cons op ops)
  from Cons.prems have st: "numeric (queue (q_step s op)) \<and> sorted (map rank (queue (q_step s op)))
     \<and> (\<forall>p. subseq (map rid [y \<leftarrow> queue (q_step s op). rank y = p]) (ids @ added_id op))"
    by (intro q_step_order) simp_all
  have "numeric (queue (q_run ops (q_step s op)))
     \<and> sorted (map rank (queue (q_run ops (q_step s op))))
     \<and> (\<forall>p. subseq (map rid [y \<leftarrow> queue (q_run ops (q_step s op)). rank y = p])
               ((ids @ added_id op) @ added_ids ops))"
    using st Cons.prems(4,5) by (intro Cons.IH) simp_all
  then show ?case by (simp add: q_run_def added_ids_def)
qed

text \<open>The firing of a retry timer, in any state.\<close>

lemma timer_fire:
  assumes "i < length (timers t)"
  shows "processing t \<Longrightarrow> queue (q_step t (TimerFire i now)) = snd (timers t ! i) # queue t"
    and "\<not> processing t \<Longrightarrow>
           loop (q_step t (TimerFire i now)) = Executing (begun (snd (timers t ! i)) now)
           \<and> queue (q_step t (TimerFire i now)) = queue t"
  using assms
  by (simp_all add: process_def take_next_def executeRequest_begin_def begun_def Let_def
      split: prod.splits)


text \<open>
  Claim C8, as amended. Take any sequence of calls of \<open>add\<close>, ends of executions and ends
  of sleeps on a new queue, in which no retry timer fires and no \<open>priority\<close> option is the
  name of a member of \<open>Object.prototype\<close>. Then the queue stands in ascending order of
  rank, and the requests of each rank stand in it in the order in which they were added.
  The next turn of the loop takes the head of the queue for execution and calls its work, so
  the request taken has the lowest rank among those queued and is the first added among
  those of its rank. A retry is outside this order: when the retry timer of a request
  fires, in any state, the request is put at the very front of the queue, ahead of every
  queued request whatever its priority, and when the loop is not running it is executed at
  once.
\<close>

theorem priority_order:
  assumes "list_all plain_add ops" and "\<not> list_ex is_TimerFire ops"
  shows "sorted (map rank (queue (q_run ops new_AIRequestQueue)))
     \<and> subseq (map rid [y \<leftarrow> queue (q_run ops new_AIRequestQueue). rank y = p]) (added_ids ops)
     \<and> (queue (q_run ops new_AIRequestQueue) = x # rest \<longrightarrow>
          loop (take_next (q_run ops new_AIRequestQueue) now) = Executing (begun x now)
          \<and> requestFn_calls (take_next (q_run ops new_AIRequestQueue) now)
              = requestFn_calls (q_run ops new_AIRequestQueue) @ [rid x]
          \<and> queue (take_next (q_run ops new_AIRequestQueue) now) = rest
          \<and> (\<forall>y\<in>set rest. rank x \<le> rank y))
     \<and> (i < length (timers t) \<longrightarrow>
          (if processing t
           then queue (q_step t (TimerFire i later)) = snd (timers t ! i) # queue t
           else loop (q_step t (TimerFire i later)) = Executing (begun (snd (timers t ! i)) later)
                \<and> queue (q_step t (TimerFire i later)) = queue t))"
proof -
  have "numeric (queue new_AIRequestQueue)" "sorted (map rank (queue new_AIRequestQueue))"
    "\<forall>p. subseq (map rid [y \<leftarrow> queue new_AIRequestQueue. rank y = p]) []"
    by (simp_all add: new_AIRequestQueue_def numeric_def)
  from q_run_order[OF this assms]
  have o: "sorted (map rank (queue (q_run ops new_AIRequestQueue)))"
    "subseq (map rid [y \<leftarrow> queue (q_run ops new_AIRequestQueue). rank y = p]) (added_ids ops)"
    by simp_all
  have h: "queue (q_run ops new_AIRequestQueue) = x # rest \<longrightarrow>
          loop (take_next (q_run ops new_AIRequestQueue) now) = Executing (begun x now)
          \<and> requestFn_calls (take_next (q_run ops new_AIRequestQueue) now)
              = requestFn_calls (q_run ops new_AIRequestQueue) @ [rid x]
          \<and> queue (take_next (q_run ops new_AIRequestQueue) now) = rest
          \<and> (\<forall>y\<in>set rest. rank x \<le> rank y)"
  proof
    assume q: "queue (q_run ops new_AIRequestQueue) = x # rest"
    have "\<forall>y\<in>set rest. rank x \<le> rank y" using o(1) by (simp add: q)
    with take_next_head[OF q, of now] show "loop (take_next (q_run ops new_AIRequestQueue) now) = Executing (begun x now)
          \<and> requestFn_calls (take_next (q_run ops new_AIRequestQueue) now)
              = requestFn_calls (q_run ops new_AIRequestQueue) @ [rid x]
          \<and> queue (take_next (q_run ops new_AIRequestQueue) now) = rest
          \<and> (\<forall>y\<in>set rest. rank x \<le> rank y)"
      by simp
  qed
  have f: "i < length (timers t) \<longrightarrow>
          (if processing t
           then queue (q_step t (TimerFire i later)) = snd (timers t ! i) # queue t
           else loop (q_step t (TimerFire i later)) = Executing (begun (snd (timers t ! i)) later)
                \<and> queue (q_step t (TimerFire i later)) = queue t)"
    using timer_fire[of i t later] by (simp del: q_step.simps)
  from o h f show ?thesis by blast
qed

text \<open>
  Four requests are added: the first is taken at once, the critical one goes ahead of the
  two low ones that wait, and the next turn of the loop takes it. In \<open>before_retry\<close> a
  low request waits for its retry while a critical one is executed and another is queued:
  the timer puts the low request ahead of the critical one.
\<close>

theorem priority_order_witness:
  "list_all plain_add four_adds \<and> \<not> list_ex is_TimerFire four_adds
   \<and> map rid (queue (q_run four_adds new_AIRequestQueue)) = [3, 2, 4]
   \<and> map rank (queue (q_run four_adds new_AIRequestQueue)) = [1, 4, 4]
   \<and> subseq [2, 4] (added_ids four_adds)
   \<and> executing_id (take_next (q_run four_adds new_AIRequestQueue) 1400) = Some 3
   \<and> map rid (queue (take_next (q_run four_adds new_AIRequestQueue) 1400)) = [2, 4]
   \<and> 0 < length (timers before_retry) \<and> processing before_retry
   \<and> map rank (queue (q_step before_retry (TimerFire 0 3500))) = [4, 1]"
proof -
  let ?S = "q_run four_adds new_AIRequestQueue"
  have h: "list_all plain_add four_adds" "\<not> list_ex is_TimerFire four_adds" by code_simp+
  have e: "map rid (queue ?S) = [3, 2, 4]" "map rank (queue ?S) = [1, 4, 4]" by code_simp+
  have q: "queue ?S = hd (queue ?S) # tl (queue ?S)" using e(1) by (cases "queue ?S") simp_all
  have r: "rid (hd (queue ?S)) = 3" "map rid (tl (queue ?S)) = [2, 4]"
    using e(1) by (cases "queue ?S"; simp)+
  have f4: "map rid [y \<leftarrow> queue ?S. rank y = 4] = [2, 4]" by code_simp
  have t: "0 < length (timers before_retry)" "processing before_retry"
    "map rank (snd (timers before_retry ! 0) # queue before_retry) = [4, 1]"
    by code_simp+
  from priority_order[OF h, of 4 "hd (queue ?S)" "tl (queue ?S)" 1400 0 before_retry 3500]
  have "subseq (map rid [y \<leftarrow> queue ?S. rank y = 4]) (added_ids four_adds)"
    "loop (take_next ?S 1400) = Executing (begun (hd (queue ?S)) 1400)"
    "queue (take_next ?S 1400) = tl (queue ?S)"
    "queue (q_step before_retry (TimerFire 0 3500)) = snd (timers before_retry ! 0) # queue before_retry"
    using q t(1,2) by (simp_all del: q_step.simps)
  then show ?thesis
    using h e r t f4 by (simp add: executing_id_def begun_def del: q_step.simps)
qed


text \<open>
  The claim as it stands fails once a retry timer fires: the request is put at the very front
  with \<open>unshift\<close>. A low request fails and is scheduled again; a critical request is in
  execution and another critical one is queued when the timer fires; the low request is
  served next, ahead of the critical one.
\<close>

theorem retry_before_critical_counterexample:
  "map priority (queue (q_run retry_unshift_ops new_AIRequestQueue)) = [Some 4, Some 1]
   \<and> executing_priority (q_run (retry_unshift_ops @ [Wake 5000]) new_AIRequestQueue)
       = Some 4
   \<and> map priority (queue (q_run (retry_unshift_ops @ [Wake 5000]) new_AIRequestQueue))
       = [Some 1]"
  by code_simp

text \<open>
  A \<open>priority\<close> option that names a member of \<open>Object.prototype\<close> gives a request
  whose priority is not a number. Every comparison with it is \<open>NaN\<close>, and the sort leaves
  a critical request that is added after it behind it.
\<close>

lemma inherited_priority_unsorted:
  "map priority (queue (q_run [Add (opts_priority ''low'') 1 1000,
                               Add (opts_priority ''constructor'') 2 1100,
                               Add (opts_priority ''critical'') 3 1200] new_AIRequestQueue))
     = [None, Some 1]"
  by code_simp


subsection \<open>Retry or reject\<close>






subsection \<open>Number of attempts\<close>

lemma cycle:
  assumes "alone s r" and "truthy e" and "attempts r < maxRetries r"
  shows "\<exists>r'. alone (q_run [Finish (FnThrew e) ms now, TimerFire 0 now] s) r'
      \<and> rid r' = rid r \<and> attempts r' = attempts r + 1 \<and> maxRetries r' = maxRetries r
      \<and> requestFn_calls (q_run [Finish (FnThrew e) ms now, TimerFire 0 now] s) = requestFn_calls s @ [rid r]
      \<and> settled (q_run [Finish (FnThrew e) ms now, TimerFire 0 now] s) = settled s"
proof -
  define s1 where "s1 = q_step s (Finish (FnThrew e) ms now)"
  define fr where "fr = failed_request r e now"
  have l: "loop s = Executing r" and q: "queue s = []" and t: "timers s = []" and p: "processing s"
    using assms(1) by (auto simp: alone_def)
  have s1: "timers s1 = [(retryDelay s * attempts r, fr)]" "settled s1 = settled s"
    "queue s1 = []" "\<not> processing s1" "requestFn_calls s1 = requestFn_calls s"
    using l q t assms(2,3) unfolding s1_def fr_def
    by (simp_all add: Let_def end_failure end_fields)
  define s2 where "s2 = s1\<lparr>timers := [], processing := True, queue := []\<rparr>"
  obtain s3 r' where b: "executeRequest_begin s2 fr now = (s3, r')"
    by (cases "executeRequest_begin s2 fr now")
  have step2: "q_step s1 (TimerFire 0 now) = s3\<lparr>loop := Executing r'\<rparr>"
    using s1 b by (simp add: process_def take_next_def s2_def)
  have run: "q_run [Finish (FnThrew e) ms now, TimerFire 0 now] s = s3\<lparr>loop := Executing r'\<rparr>"
    unfolding q_run_def using step2 by (simp add: s1_def del: q_step.simps)
  note bf = begin_fields[OF b]
  have "alone (s3\<lparr>loop := Executing r'\<rparr>) r'"
    using bf by (simp add: alone_def s2_def)
  moreover have "rid r' = rid r" "attempts r' = attempts r + 1" "maxRetries r' = maxRetries r"
    using bf by (simp_all add: fr_def failed_request_def)
  moreover have "requestFn_calls (s3\<lparr>loop := Executing r'\<rparr>) = requestFn_calls s @ [rid r]"
    using bf s1 by (simp add: s2_def fr_def failed_request_def)
  moreover have "settled (s3\<lparr>loop := Executing r'\<rparr>) = settled s"
    using bf s1 by (simp add: s2_def)
  ultimately show ?thesis
    unfolding run by blast
qed

lemma q_run_append: "q_run (xs @ ys) s = q_run ys (q_run xs s)"
  by (simp add: q_run_def)

lemma cycles:
  assumes "alone s r" and "truthy e" and "attempts r + int k \<le> maxRetries r"
  shows "\<exists>r'. alone (q_run (fail_then_retry e ms now k) s) r'
      \<and> rid r' = rid r \<and> attempts r' = attempts r + int k \<and> maxRetries r' = maxRetries r
      \<and> requestFn_calls (q_run (fail_then_retry e ms now k) s) = requestFn_calls s @ replicate k (rid r)
      \<and> settled (q_run (fail_then_retry e ms now k) s) = settled s"
  using assms
proof (induction k arbitrary: s r)
  case 0
  then show ?case by (intro exI[of _ r]) (simp add: fail_then_retry_def q_run_def)
next
  case (Suc k)
  have lt: "attempts r < maxRetries r" using Suc.prems(3) by simp
  from cycle[OF Suc.prems(1,2) lt, of ms now]
  obtain r1 where c: "alone (q_run [Finish (FnThrew e) ms now, TimerFire 0 now] s) r1"
      "rid r1 = rid r" "attempts r1 = attempts r + 1" "maxRetries r1 = maxRetries r"
      "requestFn_calls (q_run [Finish (FnThrew e) ms now, TimerFire 0 now] s) = requestFn_calls s @ [rid r]"
      "settled (q_run [Finish (FnThrew e) ms now, TimerFire 0 now] s) = settled s"
    by blast
  have b: "attempts r1 + int k \<le> maxRetries r1" using c(3,4) Suc.prems(3) by simp
  from Suc.IH[OF c(1) Suc.prems(2) b]
  obtain r' where i: "alone (q_run (fail_then_retry e ms now k) (q_run [Finish (FnThrew e) ms now, TimerFire 0 now] s)) r'"
      "rid r' = rid r1" "attempts r' = attempts r1 + int k" "maxRetries r' = maxRetries r1"
      "requestFn_calls (q_run (fail_then_retry e ms now k) (q_run [Finish (FnThrew e) ms now, TimerFire 0 now] s))
         = requestFn_calls (q_run [Finish (FnThrew e) ms now, TimerFire 0 now] s) @ replicate k (rid r1)"
      "settled (q_run (fail_then_retry e ms now k) (q_run [Finish (FnThrew e) ms now, TimerFire 0 now] s))
         = settled (q_run [Finish (FnThrew e) ms now, TimerFire 0 now] s)"
    by blast
  have f: "fail_then_retry e ms now (Suc k) = [Finish (FnThrew e) ms now, TimerFire 0 now] @ fail_then_retry e ms now k"
    by (simp add: fail_then_retry_def)
  show ?case
    unfolding f q_run_append
    using i c by (intro exI[of _ r']) (simp add: replicate_append_same[symmetric] del: replicate_append_same)
qed

lemma after_add:
  "\<exists>r. alone (q_step new_AIRequestQueue (Add opts new_id now)) r
     \<and> rid r = new_id \<and> attempts r = 1
     \<and> maxRetries r = (case o_retries opts of None \<Rightarrow> 3 | Some n \<Rightarrow> n)
     \<and> requestFn_calls (q_step new_AIRequestQueue (Add opts new_id now)) = [new_id]
     \<and> settled (q_step new_AIRequestQueue (Add opts new_id now)) = []"
  by (simp add: add_def process_def take_next_def push_and_sort_def numeric_def same_numbers_def
      alone_def Let_def executeRequest_begin_def new_request_def recordRequest_def
      new_AIRequestQueue_def List.map_filter_simps split: option.splits property.splits)


lemma last_failure:
  assumes "alone s r" and "truthy e" and "\<not> attempts r < maxRetries r"
  shows "settled (q_step s (Finish (FnThrew e) ms now)) = settled s @ [(rid r, Rejected e)]"
    and "timers (q_step s (Finish (FnThrew e) ms now)) = []"
    and "queue (q_step s (Finish (FnThrew e) ms now)) = []"
    and "loop (q_step s (Finish (FnThrew e) ms now)) = Idle"
    and "requestFn_calls (q_step s (Finish (FnThrew e) ms now)) = requestFn_calls s"
  using assms by (simp_all add: alone_def Let_def end_failure end_fields)


text \<open>
  Claim C6, as amended. A request added with \<open>retries = N\<close> to a new queue, whose work
  fails at every attempt with an error classified retryable, is executed exactly \<open>N\<close>
  times when \<open>N\<close> is at least 1, and exactly once when \<open>N\<close> is 0 or less; then it is
  rejected with that error, and no timer, queue entry or execution is left.
\<close>

theorem retry_bound:
  assumes "classify e = Inr classified" and "shouldRetry classified" and "o_retries opts = Some N"
  shows "requestFn_calls (q_run (always_failing opts new_id e ms now (nat N - 1)) new_AIRequestQueue)
           = replicate (max 1 (nat N)) new_id
       \<and> settled (q_run (always_failing opts new_id e ms now (nat N - 1)) new_AIRequestQueue)
           = [(new_id, Rejected e)]
       \<and> timers (q_run (always_failing opts new_id e ms now (nat N - 1)) new_AIRequestQueue) = []
       \<and> queue (q_run (always_failing opts new_id e ms now (nat N - 1)) new_AIRequestQueue) = []
       \<and> loop (q_run (always_failing opts new_id e ms now (nat N - 1)) new_AIRequestQueue) = Idle"
proof -
  have te: "truthy e" using assms(1,2) by (rule retryable_truthy)
  define k where "k = nat N - 1"
  define s0 where "s0 = q_step new_AIRequestQueue (Add opts new_id now)"
  define s1 where "s1 = q_run (fail_then_retry e ms now k) s0"
  from after_add[of opts new_id now] assms(3)
  obtain r0 where r0: "alone s0 r0" "rid r0 = new_id" "attempts r0 = 1" "maxRetries r0 = N"
      "requestFn_calls s0 = [new_id]" "settled s0 = []"
    unfolding s0_def by auto
  have "\<exists>r'. alone s1 r' \<and> rid r' = new_id \<and> attempts r' = 1 + int k \<and> maxRetries r' = N
      \<and> requestFn_calls s1 = new_id # replicate k new_id \<and> settled s1 = []"
  proof (cases "1 \<le> N")
    case True
    then have "attempts r0 + int k \<le> maxRetries r0" using r0 by (simp add: k_def)
    from cycles[OF r0(1) te this, of ms now] r0 show ?thesis unfolding s1_def by auto
  next
    case False
    then have "k = 0" by (simp add: k_def)
    then show ?thesis using r0
      by (intro exI[of _ r0]) (simp add: s1_def fail_then_retry_def q_run_def)
  qed
  then obtain r' where r': "alone s1 r'" "rid r' = new_id" "attempts r' = 1 + int k"
      "maxRetries r' = N" "requestFn_calls s1 = new_id # replicate k new_id" "settled s1 = []"
    by blast
  have stop: "\<not> attempts r' < maxRetries r'" using r' by (simp add: k_def)
  have run: "q_run (always_failing opts new_id e ms now k) new_AIRequestQueue
      = q_step s1 (Finish (FnThrew e) ms now)"
    by (simp add: always_failing_def q_run_def s1_def s0_def del: q_step.simps)
  have len: "Suc k = max 1 (nat N)" by (simp add: k_def)
  show ?thesis
    unfolding k_def[symmetric] run
    using last_failure[OF r'(1) te stop, of ms now] r' len
    by (simp del: q_step.simps replicate_Suc add: replicate_Suc[symmetric])
qed


theorem retry_bound_witness:
  "classify timeout_error = Inr (EnhancedError (js ''Operation timed out'') TIMEOUT)
   \<and> shouldRetry (EnhancedError (js ''Operation timed out'') TIMEOUT)
   \<and> o_retries (opts_retries 3) = Some 3
   \<and> requestFn_calls (q_run (always_failing (opts_retries 3) 1 timeout_error a_measurement 1000 2)
                         new_AIRequestQueue) = [1, 1, 1]
   \<and> settled (q_run (always_failing (opts_retries 3) 1 timeout_error a_measurement 1000 2)
                 new_AIRequestQueue) = [(1, Rejected timeout_error)]"
proof -
  have h0: "classify timeout_error = Inr (EnhancedError (js ''Operation timed out'') TIMEOUT)"
    by (simp add: classify_def timeout_error_def truthy_def)
  have h1: "shouldRetry (EnhancedError (js ''Operation timed out'') TIMEOUT)"
    by (simp add: shouldRetry_def EnhancedError_def)
  have h2: "o_retries (opts_retries 3) = Some 3" by (simp add: opts_retries_def)
  have n: "nat 3 - 1 = (2::nat)" "replicate 3 (Suc 0) = [Suc 0, Suc 0, Suc 0]"
    by (simp_all add: numeral_3_eq_3)
  from retry_bound[OF h0 h1 h2, of 1 a_measurement 1000] h0 h1 h2 show ?thesis
    by (simp add: n)
qed


text \<open>The claim as it stands fails for \<open>N = 0\<close>: the request is executed once.\<close>

theorem zero_retries_counterexample:
  "requestFn_calls (q_run (always_failing (opts_retries 0) 1 timeout_error a_measurement 1000 0)
                      new_AIRequestQueue) = [1]
   \<and> settled (q_run (always_failing (opts_retries 0) 1 timeout_error a_measurement 1000 0)
                 new_AIRequestQueue) = [(1, Rejected timeout_error)]"
  by code_simp


subsection \<open>Delay before a retry\<close>

text \<open>
  Claim C7, at an input where the code departs from it. With \<open>retries = 4\<close> and work that
  always fails with a timeout error, the three retries are scheduled after 2000, 4000 and
  6000 ms: the delay is \<open>retryDelay * attempts\<close>, which grows by a constant step, has no
  cap and no jitter. \<open>backoffDelayMs\<close>, which the queue never calls, doubles: 1000, 2000,
  4000 ms for the same error with the default base and no jitter.
\<close>

theorem retry_delays_linear:
  "map fst (timers (q_run (always_failing (opts_retries 4) 1 timeout_error a_measurement 1000 0)
                      new_AIRequestQueue)) = [2000]
   \<and> map fst (timers (q_run (always_failing (opts_retries 4) 1 timeout_error a_measurement 1000 1)
                      new_AIRequestQueue)) = [4000]
   \<and> map fst (timers (q_run (always_failing (opts_retries 4) 1 timeout_error a_measurement 1000 2)
                      new_AIRequestQueue)) = [6000]
   \<and> classify timeout_error = Inr (EnhancedError (js ''Operation timed out'') TIMEOUT)
   \<and> backoffDelayMs (EnhancedError (js ''Operation timed out'') TIMEOUT) 1 500 0 = 1000
   \<and> backoffDelayMs (EnhancedError (js ''Operation timed out'') TIMEOUT) 2 500 0 = 2000
   \<and> backoffDelayMs (EnhancedError (js ''Operation timed out'') TIMEOUT) 3 500 0 = 4000"
  by code_simp


section \<open>Properties of \<open>withAISession\<close>\<close>

lemmas body_defs = withAISession_body_def withAISession_finally_def createSession_def destroySession_def
  measureOperation_def measureOperation_end_def measureOperation_begin_def
  canMakeRequest_def getWaitTime_def get_property_def config_def get_or_def
  new_AIService_def new_RateLimiter_def new_PerformanceMonitor_def knownApiTypes_def
  env_success_def env_hang_def env_destroy_throws_def a_measurement_def truthy_def
  removeActiveOperation_def addActiveOperation_def recordOperation_def
  updateAggregatedMetrics_def new_aggregated_def maxHistorySize_def
  destroy_calls_def completion_records_def is_Completion_def

lemma finally_Some:
  assumes "settles after"
  shows "fst (withAISession_finally s api (Some h) env after)
           = (if destroyed env = DestroyPending then Pending else after)"
    and "ai_log (snd (withAISession_finally s api (Some h) env after)) = ai_log s @ [DestroySession h]"
    and "rateLimiter (snd (withAISession_finally s api (Some h) env after)) = rateLimiter s"
    and "activeSessions (snd (withAISession_finally s api (Some h) env after)) =
           (if destroy_completes (destroyed env) then filter (\<lambda>x. x \<noteq> h) (activeSessions s)
            else activeSessions s)"
  using assms
  by (cases "destroyed env";
      simp add: withAISession_finally_def destroySession_def measureOperation_end_def
        destroy_completes_def Let_def settles_def split: outcome.splits prod.splits)+

lemma measureOperation_settles_iff:
  "settles (fst (measureOperation pm n r ms opts)) \<longleftrightarrow> settles r"
  by (simp add: measureOperation_def measureOperation_end_cases settles_def split: outcome.splits)


text \<open>
  Claim C1, as amended. Take a run of the function that \<open>withAISession\<close> hands to the
  queue, for one of the six known API types, in which \<open>createSession\<close> returns a session.
  The run leaves the rate limiter as it was: it records neither an admission nor a
  completion. If the callback settles (returns or throws), \<open>destroySession\<close> is called
  exactly once for the session; the session leaves the set of active sessions exactly when
  \<open>session.destroy()\<close> returns or the session has no such function, and stays in it when
  \<open>session.destroy()\<close> throws or does not settle; and the run settles exactly when
  \<open>session.destroy()\<close> settles. If the callback does not settle, the run does not
  settle, \<open>destroySession\<close> is not called, and the session stays in the set of active
  sessions.
\<close>

theorem session_released_once:
  assumes "api \<in> set knownApiTypes" and "created env = Returned h"
  shows "rateLimiter (snd (withAISession_body s api env)) = rateLimiter s
     \<and> completion_records (snd (withAISession_body s api env)) = completion_records s
     \<and> (settles (callback_result env) \<longrightarrow>
          destroy_calls (snd (withAISession_body s api env)) h = destroy_calls s h + 1
          \<and> (h \<in> set (activeSessions (snd (withAISession_body s api env)))
               \<longleftrightarrow> \<not> destroy_completes (destroyed env))
          \<and> (settles (fst (withAISession_body s api env))
               \<longleftrightarrow> destroyed env \<noteq> DestroyPending))
     \<and> (\<not> settles (callback_result env) \<longrightarrow>
          fst (withAISession_body s api env) = Pending
          \<and> destroy_calls (snd (withAISession_body s api env)) h = destroy_calls s h
          \<and> h \<in> set (activeSessions (snd (withAISession_body s api env))))"
proof -
  define s0 where "s0 = (if \<not> canMakeRequest (rateLimiter s) api (env_now env)
               then s\<lparr>ai_log := ai_log s @ [Slept (getWaitTime (rateLimiter s) api (env_now env))]\<rparr>
               else s)"
  define s2 where "s2 = s0\<lparr>monitor := snd (measureOperation_end
       (measureOperation_begin (monitor s0) (api @ ''_createSession'') (startTime (ms_create env)))
       (api @ ''_createSession'') (Returned (Some h)) (ms_create env) []),
     ai_log := ai_log s0 @ [CreateSession api],
     activeSessions := filter (\<lambda>x. x \<noteq> h) (activeSessions s0) @ [h]\<rparr>"
  obtain x pm2 where m: "measureOperation (monitor s2) (api @ ''_execute'')
                               (callback_result env) (ms_execute env) [] = (x, pm2)"
    by (cases "measureOperation (monitor s2) (api @ ''_execute'') (callback_result env) (ms_execute env) []")
  have sx: "settles x \<longleftrightarrow> settles (callback_result env)"
    using measureOperation_settles_iff[of "monitor s2" "api @ ''_execute''" "callback_result env"
            "ms_execute env" "[]"] m by simp
  define after where "after = (case x of Returned result \<Rightarrow> Returned result
       | Threw e \<Rightarrow> Threw (withAISession_catch e) | Pending \<Rightarrow> Pending)"
  define s3 where "s3 = s2\<lparr>monitor := pm2\<rparr>"
  have log: "ai_log s3 = ai_log s0 @ [CreateSession api]"
    by (simp add: s3_def s2_def)
  have rl: "rateLimiter s3 = rateLimiter s"
    by (simp add: s3_def s2_def s0_def)
  have act: "h \<in> set (activeSessions s3)"
    by (simp add: s3_def s2_def)
  have cnt0: "length (filter (\<lambda>ev. ev = DestroySession h) (ai_log s0)) = destroy_calls s h"
    by (simp add: s0_def destroy_calls_def)
  show ?thesis
  proof (cases "settles (callback_result env)")
    case True
    then have sx': "settles x" using sx by simp
    have sa: "settles after" using sx' by (simp add: after_def settles_def split: outcome.splits)
    have body: "withAISession_body s api env = withAISession_finally s3 api (Some h) env after"
      using assms(1,2) m sx'
      by (simp add: withAISession_body_def createSession_def Let_def s0_def[symmetric]
          measureOperation_end_def s2_def s3_def after_def settles_def
          split: outcome.splits prod.splits)
    note f = finally_Some[OF sa, of s3 api h env]
    have 1: "destroy_calls (snd (withAISession_body s api env)) h = destroy_calls s h + 1"
      unfolding body using f(2) log cnt0 by (simp add: destroy_calls_def)
    have 2: "h \<in> set (activeSessions (snd (withAISession_body s api env)))
               \<longleftrightarrow> \<not> destroy_completes (destroyed env)"
      unfolding body using f(4) act by simp
    have 3: "settles (fst (withAISession_body s api env)) \<longleftrightarrow> destroyed env \<noteq> DestroyPending"
      unfolding body using f(1) sa by (simp add: settles_def)
    have 4: "rateLimiter (snd (withAISession_body s api env)) = rateLimiter s"
      unfolding body using f(3) rl by simp
    then have 5: "completion_records (snd (withAISession_body s api env)) = completion_records s"
      by (simp add: completion_records_def)
    from True 1 2 3 4 5 show ?thesis by simp
  next
    case False
    then have px: "x = Pending" using sx by (simp add: settles_def split: outcome.splits)
    have body: "withAISession_body s api env = (Pending, s3)"
      using assms(1,2) m px
      by (simp add: withAISession_body_def createSession_def Let_def s0_def[symmetric]
          measureOperation_end_def s2_def s3_def split: outcome.splits prod.splits)
    have 1: "destroy_calls (snd (withAISession_body s api env)) h = destroy_calls s h"
      unfolding body using log cnt0 by (simp add: destroy_calls_def)
    have 4: "rateLimiter (snd (withAISession_body s api env)) = rateLimiter s"
      unfolding body using rl by simp
    then have 5: "completion_records (snd (withAISession_body s api env)) = completion_records s"
      by (simp add: completion_records_def)
    from False 1 4 5 act show ?thesis by (simp add: body)
  qed
qed

text \<open>
  A run that succeeds, a run whose callback never settles, and a run in which
  \<open>session.destroy()\<close> throws.
\<close>

theorem session_released_once_witness:
  "''Rewriter'' \<in> set knownApiTypes \<and> created env_success = Returned 7
   \<and> settles (callback_result env_success) \<and> destroy_completes (destroyed env_success)
   \<and> destroy_calls (snd (withAISession_body new_AIService ''Rewriter'' env_success)) 7 = 1
   \<and> 7 \<notin> set (activeSessions (snd (withAISession_body new_AIService ''Rewriter'' env_success)))
   \<and> settles (fst (withAISession_body new_AIService ''Rewriter'' env_success))
   \<and> rateLimiter (snd (withAISession_body new_AIService ''Rewriter'' env_success)) = new_RateLimiter
   \<and> created env_hang = Returned 7 \<and> \<not> settles (callback_result env_hang)
   \<and> fst (withAISession_body new_AIService ''Rewriter'' env_hang) = Pending
   \<and> destroy_calls (snd (withAISession_body new_AIService ''Rewriter'' env_hang)) 7 = 0
   \<and> 7 \<in> set (activeSessions (snd (withAISession_body new_AIService ''Rewriter'' env_hang)))
   \<and> created env_destroy_throws = Returned 7 \<and> settles (callback_result env_destroy_throws)
   \<and> \<not> destroy_completes (destroyed env_destroy_throws)
   \<and> destroy_calls (snd (withAISession_body new_AIService ''Rewriter'' env_destroy_throws)) 7 = 1
   \<and> 7 \<in> set (activeSessions (snd (withAISession_body new_AIService ''Rewriter'' env_destroy_throws)))"
proof -
  have k: "''Rewriter'' \<in> set knownApiTypes" by (simp add: knownApiTypes_def)
  have h: "created env_success = Returned 7" "settles (callback_result env_success)"
    "destroy_completes (destroyed env_success)" "destroyed env_success \<noteq> DestroyPending"
    "created env_hang = Returned 7" "\<not> settles (callback_result env_hang)"
    "created env_destroy_throws = Returned 7" "settles (callback_result env_destroy_throws)"
    "\<not> destroy_completes (destroyed env_destroy_throws)"
    by (simp_all add: env_success_def env_hang_def env_destroy_throws_def settles_def
        destroy_completes_def)
  have z: "destroy_calls new_AIService 7 = 0" "rateLimiter new_AIService = new_RateLimiter"
    by (simp_all add: destroy_calls_def new_AIService_def)
  from session_released_once[OF k h(1), of new_AIService]
       session_released_once[OF k h(5), of new_AIService]
       session_released_once[OF k h(7), of new_AIService]
       k h z
  show ?thesis by simp
qed


text \<open>
  The claim as it stands fails twice. No completion is recorded with the rate limiter on any
  path. And while the callback is pending, which is where the timeout of the queue ends the
  attempt, the session is not destroyed and stays in the set of active sessions.
\<close>

theorem session_leak_counterexample:
  "completion_records (snd (withAISession_body new_AIService ''Rewriter'' env_success)) = 0
   \<and> destroy_calls (snd (withAISession_body new_AIService ''Rewriter'' env_success)) 7 = 1
   \<and> fst (withAISession_body new_AIService ''Rewriter'' env_hang) = Pending
   \<and> destroy_calls (snd (withAISession_body new_AIService ''Rewriter'' env_hang)) 7 = 0
   \<and> activeSessions (snd (withAISession_body new_AIService ''Rewriter'' env_hang)) = [7]"
  by (simp add: body_defs Let_def)

end
